theory Spec2Isabelle
  imports Complex_Main
begin

section \<open>The network-builder query engine (src/services/networkBuilder.ts)\<close>

text \<open>
  A shallow embedding of the class \<open>NetworkBuilder\<close>: its constructor, \<open>searchNodes\<close>,
  \<open>expandFromSeeds\<close>, \<open>buildNetwork\<close> and \<open>selectTopNodesByDegree\<close>.

  Conventions of the embedding.
  \<^item> A JavaScript \<open>Set<string>\<close> is the list of its elements in insertion order
    (\<open>set_add\<close>, \<open>new_Set\<close>); a \<open>Map<string, V>\<close> whose iteration order is used is an
    association list in insertion order (\<open>map_set\<close>, \<open>map_get\<close>, \<open>map_has\<close>,
    \<open>map_values\<close>); the adjacency map, which is only read by key, is a HOL map.
  \<^item> The string unions \<open>NodeType\<close>, the edge type, \<open>'AND' | 'OR'\<close> and
    \<open>'global' | 'subgraph'\<close> are datatypes.
  \<^item> \<open>number\<close>s that count (degrees, \<open>val\<close>) are \<open>nat\<close>; the numeric query fields are
    \<open>int\<close>, with \<open>Array.prototype.slice\<close> written out for a negative end.
  \<^item> The node objects of \<open>allNodes\<close> are distinct objects; an object is identified by its
    position in \<open>allNodes\<close>. \<open>buildNetwork\<close> assigns to fields of these objects, so
    it returns the builder after the call beside the \<open>FilteredGraph\<close>.
  \<^item> Strings are byte strings; \<open>toLowerCase\<close> and \<open>trim\<close> act on ASCII.
\<close>

subsection \<open>Strings\<close>

definition lower_char :: "char \<Rightarrow> char" where
  "lower_char c =
     (let k = (of_char c :: nat) in if 65 \<le> k \<and> k \<le> 90 then char_of (k + 32) else c)"

definition toLowerCase :: "string \<Rightarrow> string" where
  "toLowerCase s = map lower_char s"

definition is_space :: "char \<Rightarrow> bool" where
  "is_space c = (let k = (of_char c :: nat) in k = 32 \<or> (9 \<le> k \<and> k \<le> 13))"

definition trim :: "string \<Rightarrow> string" where
  "trim s = rev (dropWhile is_space (rev (dropWhile is_space s)))"

fun startsWith :: "string \<Rightarrow> string \<Rightarrow> bool" where
  "startsWith s [] = True"
| "startsWith [] (c # p) = False"
| "startsWith (x # s) (c # p) = (x = c \<and> startsWith s p)"

text \<open>\<open>str_includes s t\<close> is \<open>s.includes(t)\<close>: \<open>t\<close> occurs in \<open>s\<close> as a substring.\<close>

fun str_includes :: "string \<Rightarrow> string \<Rightarrow> bool" where
  "str_includes [] t = (t = [])"
| "str_includes (x # s) t = (startsWith (x # s) t \<or> str_includes s t)"

function string_of_nat :: "nat \<Rightarrow> string" where
  "string_of_nat n =
     (if n < 10 then [char_of (48 + n)]
      else string_of_nat (n div 10) @ [char_of (48 + n mod 10)])"
  by pat_completeness auto
termination
  by (relation "measure (\<lambda>n. n)") auto

definition string_of_int :: "int \<Rightarrow> string" where
  "string_of_int i = (if i < 0 then CHR ''-'' # string_of_nat (nat (- i)) else string_of_nat (nat i))"

subsection \<open>JavaScript containers\<close>

definition set_add :: "'a list \<Rightarrow> 'a \<Rightarrow> 'a list" where
  "set_add s x = (if x \<in> set s then s else s @ [x])"

definition new_Set :: "'a list \<Rightarrow> 'a list" where
  "new_Set xs = foldl set_add [] xs"

fun map_set :: "('k \<times> 'v) list \<Rightarrow> 'k \<Rightarrow> 'v \<Rightarrow> ('k \<times> 'v) list" where
  "map_set [] k v = [(k, v)]"
| "map_set ((k', v') # m) k v = (if k' = k then (k, v) # m else (k', v') # map_set m k v)"

definition map_get :: "('k \<times> 'v) list \<Rightarrow> 'k \<Rightarrow> 'v option" where
  "map_get m k = map_of m k"

definition map_has :: "('k \<times> 'v) list \<Rightarrow> 'k \<Rightarrow> bool" where
  "map_has m k = (map_of m k \<noteq> None)"

definition map_values :: "('k \<times> 'v) list \<Rightarrow> 'v list" where
  "map_values m = map snd m"

text \<open>\<open>xs.slice(0, n)\<close> for an integer \<open>n\<close>: a negative end counts from the end of the array.\<close>

definition slice0 :: "'a list \<Rightarrow> int \<Rightarrow> 'a list" where
  "slice0 xs n = (if n < 0 then take (nat (int (length xs) + n)) xs else take (nat n) xs)"

subsection \<open>Data model (src/types.ts)\<close>

datatype NodeType = Section | Entity | Concept | Index

datatype EdgeType = Definition | Reference | Hierarchy

datatype SearchLogic = LogicAND | LogicOR

datatype RankingMode = Global | Subgraph

datatype PropValue = PString string | POther

text \<open>
  The property bag \<open>properties?: {full_name?, text?, definition?, [key: string]: any}\<close>:
  the three declared string entries and the remaining entries, of which only the
  string-valued ones are ever read.
\<close>

record Properties =
  p_text :: "string option"
  p_full_name :: "string option"
  p_definition :: "string option"
  p_extra :: "(string \<times> PropValue) list"

text \<open>
  \<open>GraphNode\<close>. The fields the engine reads or writes are record fields; \<open>attrs\<close> holds
  the remaining attributes of the object (\<open>time\<close>, \<open>usc_title\<close>, the hierarchy fields, the
  D3 coordinates, ...) by attribute name with their \<open>String(...)\<close> image, absent when
  \<open>null\<close> or \<open>undefined\<close>.
\<close>

record GraphNode =
  node_id :: string
  name :: string
  node_type :: NodeType
  val :: "nat option"
  totalVal :: "nat option"
  color :: "string option"
  baseColor :: "string option"
  display_label :: "string option"
  properties :: "Properties option"
  full_name :: "string option"
  node_text :: "string option"
  section_text :: "string option"
  index_heading :: "string option"
  attrs :: "(string \<times> string) list"

text \<open>
  A link endpoint is \<open>string | GraphNode\<close>; the engine reads only the identifier
  (\<open>typeof link.source === 'string' ? link.source : link.source.id\<close>), so the object
  alternative carries the identifier of the object.
\<close>

datatype Endpoint = IdRef string | NodeRef string

fun endpointId :: "Endpoint \<Rightarrow> string" where
  "endpointId (IdRef s) = s"
| "endpointId (NodeRef s) = s"

record GraphLink =
  source :: Endpoint
  target :: Endpoint
  edge_type :: EdgeType
  action :: string
  link_time :: "string option"
  link_usc_title :: "string option"
  link_source_title :: "string option"
  weight :: "int option"
  link_definition :: "string option"
  location :: "string option"
  timestamp :: "string option"

record Neighbor =
  neighborId :: string
  edgeType :: EdgeType

record NetworkBuilderState =
  searchTerms :: "string list"
  searchFields :: "string list"
  allowedNodeTypes :: "NodeType list"
  allowedEdgeTypes :: "EdgeType list"
  allowedTitles :: "int list"
  allowedSections :: "string list"
  seedNodeIds :: "string list"
  expansionDepth :: int
  maxNodesPerExpansion :: int
  maxTotalNodes :: int

record FilteredGraph =
  nodes :: "GraphNode list"
  links :: "GraphLink list"
  truncated :: bool
  matchedCount :: nat

record NetworkBuilder =
  allNodes :: "GraphNode list"
  allLinks :: "GraphLink list"
  adjacencyMap :: "string \<rightharpoonup> Neighbor list"

subsection \<open>Constructor: the adjacency map\<close>

definition sourceId :: "GraphLink \<Rightarrow> string" where
  "sourceId link = endpointId (source link)"

definition targetId :: "GraphLink \<Rightarrow> string" where
  "targetId link = endpointId (target link)"

definition adj_get :: "(string \<rightharpoonup> Neighbor list) \<Rightarrow> string \<Rightarrow> Neighbor list" where
  "adj_get m k = (case m k of None \<Rightarrow> [] | Some ns \<Rightarrow> ns)"

definition addLink :: "(string \<rightharpoonup> Neighbor list) \<Rightarrow> GraphLink \<Rightarrow> (string \<rightharpoonup> Neighbor list)" where
  "addLink m link =
     (let s = sourceId link; t = targetId link; e = edge_type link;
          m1 = (if m s = None then m(s \<mapsto> []) else m);
          m2 = (if m1 t = None then m1(t \<mapsto> []) else m1);
          m3 = m2(s \<mapsto> adj_get m2 s @ [\<lparr>neighborId = t, edgeType = e\<rparr>]);
          m4 = m3(t \<mapsto> adj_get m3 t @ [\<lparr>neighborId = s, edgeType = e\<rparr>])
      in m4)"

definition new_NetworkBuilder :: "GraphNode list \<Rightarrow> GraphLink list \<Rightarrow> NetworkBuilder" where
  "new_NetworkBuilder ns ls =
     \<lparr>allNodes = ns, allLinks = ls, adjacencyMap = foldl addLink Map.empty ls\<rparr>"

subsection \<open>searchNodes\<close>

text \<open>JavaScript truthiness of a \<open>string | null | undefined\<close> and the operator \<open>||\<close>.\<close>

definition truthy :: "string option \<Rightarrow> bool" where
  "truthy v = (case v of None \<Rightarrow> False | Some s \<Rightarrow> s \<noteq> [])"

definition js_or :: "string option \<Rightarrow> string option \<Rightarrow> string option" where
  "js_or a b = (if truthy a then a else b)"

text \<open>\<open>node.properties?.f\<close>\<close>

definition props_get :: "GraphNode \<Rightarrow> (Properties \<Rightarrow> string option) \<Rightarrow> string option" where
  "props_get node f = (case properties node of None \<Rightarrow> None | Some p \<Rightarrow> f p)"

definition nodeTypeName :: "NodeType \<Rightarrow> string" where
  "nodeTypeName t =
     (case t of Section \<Rightarrow> ''section'' | Entity \<Rightarrow> ''entity''
      | Concept \<Rightarrow> ''concept'' | Index \<Rightarrow> ''index'')"

text \<open>
  \<open>String((node as any)[field])\<close> of the \<open>default\<close> branch, for a field name that is none
  of the seven names of the \<open>switch\<close>; \<open>None\<close> when the attribute is \<open>null\<close> or
  \<open>undefined\<close>.
\<close>

definition attribute :: "GraphNode \<Rightarrow> string \<Rightarrow> string option" where
  "attribute node field =
     (if field = ''id'' then Some (node_id node)
      else if field = ''name'' then Some (name node)
      else if field = ''node_type'' then Some (nodeTypeName (node_type node))
      else if field = ''val'' then map_option string_of_nat (val node)
      else if field = ''totalVal'' then map_option string_of_nat (totalVal node)
      else if field = ''color'' then color node
      else if field = ''baseColor'' then baseColor node
      else if field = ''section_text'' then section_text node
      else if field = ''index_heading'' then index_heading node
      else map_of (attrs node) field)"

text \<open>The \<open>value\<close> left by the \<open>switch\<close>, for every field but \<open>'properties'\<close>.\<close>

definition fieldValue :: "GraphNode \<Rightarrow> string \<Rightarrow> string option" where
  "fieldValue node field =
     (if field = ''text'' then
        js_or (js_or (js_or (props_get node p_text) (node_text node)) (section_text node))
          (index_heading node)
      else if field = ''full_name'' then js_or (props_get node p_full_name) (full_name node)
      else if field = ''display_label'' then display_label node
      else if field = ''definition'' then props_get node p_definition
      else if field = ''entity'' then (if node_type node = Entity then Some (name node) else None)
      else if field = ''concept'' then (if node_type node = Concept then Some (name node) else None)
      else attribute node field)"

text \<open>
  The string-valued entries of \<open>Object.values(node.properties)\<close>. Their order is the
  insertion order of the object, which the engine never observes (the values are only
  tested with \<open>some\<close>).
\<close>

definition propertyStrings :: "Properties \<Rightarrow> string list" where
  "propertyStrings p =
     (case p_text p of None \<Rightarrow> [] | Some s \<Rightarrow> [s]) @
     (case p_full_name p of None \<Rightarrow> [] | Some s \<Rightarrow> [s]) @
     (case p_definition p of None \<Rightarrow> [] | Some s \<Rightarrow> [s]) @
     concat (map (\<lambda>(k, v). case v of PString s \<Rightarrow> [s] | POther \<Rightarrow> []) (p_extra p))"

definition pushField :: "GraphNode \<Rightarrow> string list \<Rightarrow> string \<Rightarrow> string list" where
  "pushField node searchableValues field =
     (if field = ''properties'' then
        (case properties node of
           None \<Rightarrow> searchableValues
         | Some p \<Rightarrow> searchableValues @ map toLowerCase (propertyStrings p))
      else
        (case fieldValue node field of
           None \<Rightarrow> searchableValues
         | Some v \<Rightarrow> searchableValues @ [toLowerCase v]))"

definition searchableValues :: "GraphNode \<Rightarrow> string list \<Rightarrow> string list" where
  "searchableValues node sfields = foldl (pushField node) [] sfields"

definition termFound :: "string list \<Rightarrow> string \<Rightarrow> bool" where
  "termFound vals term = list_ex (\<lambda>searchableValue. str_includes searchableValue term) vals"

definition nodeMatches :: "SearchLogic \<Rightarrow> string list \<Rightarrow> string list \<Rightarrow> GraphNode \<Rightarrow> bool" where
  "nodeMatches logic normalizedTerms sfields node =
     (let vals = searchableValues node sfields
      in if logic = LogicOR then list_ex (termFound vals) normalizedTerms
         else list_all (termFound vals) normalizedTerms)"

definition searchNodes ::
  "NetworkBuilder \<Rightarrow> string list \<Rightarrow> string list \<Rightarrow> SearchLogic \<Rightarrow> string list" where
  "searchNodes e terms sfields logic =
     (let normalizedTerms = map (\<lambda>t. trim (toLowerCase t)) terms
      in foldl (\<lambda>matchedIds node.
                  if nodeMatches logic normalizedTerms sfields node
                  then set_add matchedIds (node_id node) else matchedIds)
           [] (allNodes e))"

subsection \<open>expandFromSeeds\<close>

definition limitedNeighbors ::
  "NetworkBuilder \<Rightarrow> int \<Rightarrow> EdgeType list \<Rightarrow> string \<Rightarrow> Neighbor list" where
  "limitedNeighbors e maxNeighborsPerNode allowed nodeId =
     (let neighbors = adj_get (adjacencyMap e) nodeId;
          filteredNeighbors =
            (if length allowed > 0 then filter (\<lambda>n. edgeType n \<in> set allowed) neighbors
             else neighbors)
      in if maxNeighborsPerNode > 0 then slice0 filteredNeighbors maxNeighborsPerNode
         else filteredNeighbors)"

text \<open>The body of the inner \<open>forEach\<close>, on the pair (\<open>expanded\<close>, \<open>nextLayer\<close>).\<close>

definition visit :: "string list \<times> string list \<Rightarrow> Neighbor \<Rightarrow> string list \<times> string list" where
  "visit st n =
     (if neighborId n \<notin> set (fst st)
      then (set_add (fst st) (neighborId n), set_add (snd st) (neighborId n))
      else st)"

definition expandLayer ::
  "NetworkBuilder \<Rightarrow> int \<Rightarrow> EdgeType list \<Rightarrow> string list \<Rightarrow> string list
     \<Rightarrow> string list \<times> string list" where
  "expandLayer e maxNeighborsPerNode allowed expanded currentLayer =
     foldl (\<lambda>st nodeId. foldl visit st (limitedNeighbors e maxNeighborsPerNode allowed nodeId))
       (expanded, []) currentLayer"

text \<open>The \<open>for\<close> loop with \<open>k\<close> iterations left; it breaks when the next layer is empty.\<close>

fun expandLoop ::
  "NetworkBuilder \<Rightarrow> int \<Rightarrow> EdgeType list \<Rightarrow> nat \<Rightarrow> string list \<Rightarrow> string list
     \<Rightarrow> string list" where
  "expandLoop e maxN allowed 0 expanded currentLayer = expanded"
| "expandLoop e maxN allowed (Suc k) expanded currentLayer =
     (let st = expandLayer e maxN allowed expanded currentLayer
      in if length (snd st) = 0 then fst st
         else expandLoop e maxN allowed k (fst st) (snd st))"

definition expandFromSeeds ::
  "NetworkBuilder \<Rightarrow> string list \<Rightarrow> int \<Rightarrow> int \<Rightarrow> EdgeType list \<Rightarrow> string list" where
  "expandFromSeeds e seedIds depth maxNeighborsPerNode allowed =
     expandLoop e maxNeighborsPerNode allowed (nat depth) (new_Set seedIds) (new_Set seedIds)"

subsection \<open>buildNetwork: the stages\<close>

definition findNode :: "NetworkBuilder \<Rightarrow> string \<Rightarrow> GraphNode option" where
  "findNode e i = find (\<lambda>n. node_id n = i) (allNodes e)"

definition usesSearch :: "NetworkBuilderState \<Rightarrow> bool" where
  "usesSearch state = (length (searchTerms state) > 0 \<and> length (searchFields state) > 0)"

text \<open>Step 1b: the candidates from the seeds.\<close>

definition expandedCandidates ::
  "NetworkBuilder \<Rightarrow> NetworkBuilderState \<Rightarrow> string list \<Rightarrow> string list" where
  "expandedCandidates e state seeds =
     (if expansionDepth state > 0 then
        (let expanded =
               expandFromSeeds e seeds (expansionDepth state)
                 (maxNodesPerExpansion state) (allowedEdgeTypes state)
         in if length (allowedNodeTypes state) > 0 then
              new_Set (filter (\<lambda>i. case findNode e i of
                                      None \<Rightarrow> False
                                    | Some node \<Rightarrow>
                                        if i \<in> set seeds then True
                                        else node_type node \<in> set (allowedNodeTypes state))
                         expanded)
            else expanded)
      else new_Set seeds)"

text \<open>Step 2: the seeds re-filtered by node type.\<close>

definition seedsAfterFilter ::
  "NetworkBuilder \<Rightarrow> NetworkBuilderState \<Rightarrow> string list \<Rightarrow> string list" where
  "seedsAfterFilter e state seeds =
     new_Set (filter (\<lambda>i. case findNode e i of
                             None \<Rightarrow> False
                           | Some node \<Rightarrow>
                               length (allowedNodeTypes state) > 0 \<and>
                               node_type node \<in> set (allowedNodeTypes state))
                seeds)"

text \<open>
  Steps 1 and 2: \<open>candidateNodeIds\<close> as it enters step 3, or \<open>None\<close> where the
  function returns the empty result early.
\<close>

definition candidateNodeIds ::
  "NetworkBuilder \<Rightarrow> NetworkBuilderState \<Rightarrow> SearchLogic \<Rightarrow> string list option" where
  "candidateNodeIds e state searchLogic =
     (if usesSearch state then
        (let seeds = searchNodes e (searchTerms state) (searchFields state) searchLogic
         in if length seeds = 0 then None
            else
              (let cands = expandedCandidates e state seeds;
                   seedsAfter = seedsAfterFilter e state seeds
               in if length seedsAfter = 0 then None
                  else Some (new_Set (filter (\<lambda>i. i \<in> set seedsAfter \<or> i \<notin> set seeds)
                                        cands))))
      else Some (new_Set (map node_id (allNodes e))))"

text \<open>Step 3.\<close>

definition candidateNodeMap :: "NetworkBuilder \<Rightarrow> string list \<Rightarrow> (string \<times> GraphNode) list" where
  "candidateNodeMap e cands =
     foldl (\<lambda>m n. if node_id n \<in> set cands then map_set m (node_id n) n else m) [] (allNodes e)"

text \<open>Step 4.\<close>

definition edgeTypeMatch :: "NetworkBuilderState \<Rightarrow> GraphLink \<Rightarrow> bool" where
  "edgeTypeMatch state link =
     (length (allowedEdgeTypes state) > 0 \<and> edge_type link \<in> set (allowedEdgeTypes state))"

definition candidateLinks ::
  "NetworkBuilder \<Rightarrow> NetworkBuilderState \<Rightarrow> (string \<times> GraphNode) list \<Rightarrow> GraphLink list" where
  "candidateLinks e state cmap =
     filter (\<lambda>link. edgeTypeMatch state link \<and> map_has cmap (sourceId link)
                      \<and> map_has cmap (targetId link))
       (allLinks e)"

text \<open>Step 5.\<close>

definition nodesWithEdges :: "GraphLink list \<Rightarrow> string list" where
  "nodesWithEdges ls =
     foldl (\<lambda>s link. set_add (set_add s (sourceId link)) (targetId link)) [] ls"

definition typeMatch :: "NetworkBuilderState \<Rightarrow> GraphNode \<Rightarrow> bool" where
  "typeMatch state n =
     (length (allowedNodeTypes state) = 0 \<or> node_type n \<in> set (allowedNodeTypes state))"

definition connectedNodeIds ::
  "NetworkBuilderState \<Rightarrow> GraphNode list \<Rightarrow> GraphLink list \<Rightarrow> string list" where
  "connectedNodeIds state candidateNodes candLinks =
     new_Set (map node_id
       (filter (\<lambda>n. node_id n \<in> set (nodesWithEdges candLinks) \<and> typeMatch state n)
          candidateNodes))"

text \<open>Step 6. \<open>deg_or0 m k\<close> is \<open>m.get(k) || 0\<close>.\<close>

definition deg_or0 :: "(string \<times> nat) list \<Rightarrow> string \<Rightarrow> nat" where
  "deg_or0 m k = (case map_get m k of None \<Rightarrow> 0 | Some d \<Rightarrow> d)"

definition bumpLink :: "(string \<times> nat) list \<Rightarrow> GraphLink \<Rightarrow> (string \<times> nat) list" where
  "bumpLink m link =
     (let m1 = map_set m (sourceId link) (deg_or0 m (sourceId link) + 1)
      in map_set m1 (targetId link) (deg_or0 m1 (targetId link) + 1))"

definition countDegrees :: "GraphLink list \<Rightarrow> (string \<times> nat) list" where
  "countDegrees ls = foldl bumpLink [] ls"

text \<open>
  \<open>sort\<close> with the comparator \<open>degree b - degree a\<close> is a stable sort by descending
  degree: \<open>sort_key\<close> on the negated degree.
\<close>

definition topSubgraph ::
  "NetworkBuilderState \<Rightarrow> string list \<Rightarrow> GraphLink list \<Rightarrow> string list" where
  "topSubgraph state connectedIds candLinks =
     (let nodeDegrees = countDegrees candLinks
      in slice0
           (sort_key (\<lambda>i. - int (deg_or0 nodeDegrees i))
              (filter (\<lambda>nodeId. map_has nodeDegrees nodeId) connectedIds))
           (maxTotalNodes state))"

definition selectTopNodesByDegree :: "NetworkBuilder \<Rightarrow> string list \<Rightarrow> int \<Rightarrow> string list" where
  "selectTopNodesByDegree e nodeIds maxNodes =
     (let nodeDegrees =
            foldl (\<lambda>m nodeId. map_set m nodeId (length (adj_get (adjacencyMap e) nodeId)))
              [] nodeIds
      in map fst (slice0 (sort_key (\<lambda>entry. - int (snd entry)) nodeDegrees) maxNodes))"

definition finalNodeIds ::
  "NetworkBuilder \<Rightarrow> NetworkBuilderState \<Rightarrow> RankingMode \<Rightarrow> string list \<Rightarrow> GraphLink list
     \<Rightarrow> string list" where
  "finalNodeIds e state nodeRankingMode connectedIds candLinks =
     (if int (length connectedIds) > maxTotalNodes state then
        (if nodeRankingMode = Subgraph then new_Set (topSubgraph state connectedIds candLinks)
         else new_Set (selectTopNodesByDegree e connectedIds (maxTotalNodes state)))
      else connectedIds)"

text \<open>
  Step 7. \<open>selectedNodeMap\<close> maps an identifier to a node object of \<open>allNodes\<close>, here
  to the position of that object.
\<close>

definition selectNode ::
  "NetworkBuilderState \<Rightarrow> string list \<Rightarrow> (string \<times> nat) list \<Rightarrow> nat \<times> GraphNode
     \<Rightarrow> (string \<times> nat) list" where
  "selectNode state final m kn =
     (if node_id (snd kn) \<in> set final then
        (if typeMatch state (snd kn) then map_set m (node_id (snd kn)) (fst kn) else m)
      else m)"

definition selectedNodeMap ::
  "NetworkBuilder \<Rightarrow> NetworkBuilderState \<Rightarrow> string list \<Rightarrow> (string \<times> nat) list" where
  "selectedNodeMap e state final =
     foldl (selectNode state final) [] (enumerate 0 (allNodes e))"

definition freshLink :: "GraphLink \<Rightarrow> GraphLink" where
  "freshLink link =
     \<lparr>source = IdRef (sourceId link), target = IdRef (targetId link),
      edge_type = edge_type link, action = action link, link_time = link_time link,
      link_usc_title = link_usc_title link, link_source_title = link_source_title link,
      weight = weight link, link_definition = link_definition link,
      location = location link, timestamp = timestamp link\<rparr>"

definition finalLinks :: "(string \<times> nat) list \<Rightarrow> GraphLink list \<Rightarrow> GraphLink list" where
  "finalLinks sel candLinks =
     map freshLink
       (filter (\<lambda>link. map_has sel (sourceId link) \<and> map_has sel (targetId link)) candLinks)"

text \<open>
  Step 8. The node objects listed in \<open>nodes\<close> are objects of \<open>allNodes\<close>, and the two
  \<open>nodes.forEach\<close> loops assign to them: \<open>update_at ks f\<close> applies \<open>f\<close> to the
  objects at the positions \<open>ks\<close>.
\<close>

definition update_at :: "nat list \<Rightarrow> ('a \<Rightarrow> 'a) \<Rightarrow> 'a list \<Rightarrow> 'a list" where
  "update_at ks f xs = map (\<lambda>kx. if fst kx \<in> set ks then f (snd kx) else snd kx) (enumerate 0 xs)"

text \<open>\<open>nodeDegree.get(node.id) || 1\<close>\<close>

definition deg_or1 :: "(string \<times> nat) list \<Rightarrow> string \<Rightarrow> nat" where
  "deg_or1 m k = (case map_get m k of None \<Rightarrow> 1 | Some d \<Rightarrow> if d = 0 then 1 else d)"

definition assignVal :: "(string \<times> nat) list \<Rightarrow> GraphNode \<Rightarrow> GraphNode" where
  "assignVal nodeDegree node =
     node\<lparr>val := Some (deg_or1 nodeDegree (node_id node)),
          totalVal := Some (deg_or1 nodeDegree (node_id node))\<rparr>"

text \<open>\<open>node.val\<close>, read after the first loop has assigned it on every node of \<open>nodes\<close>.\<close>

definition val_of :: "GraphNode \<Rightarrow> nat" where
  "val_of node = (case val node of None \<Rightarrow> 0 | Some v \<Rightarrow> v)"

text \<open>
  The colour scales. The source computes \<open>t = v / maxVal\<close> and the channels in double
  precision; the embedding computes them in the rationals. \<open>Math.round\<close> rounds a half
  up.
\<close>

definition js_round :: "rat \<Rightarrow> int" where
  "js_round x = \<lfloor>x + 1 / 2\<rfloor>"

definition channel :: "int \<Rightarrow> int \<Rightarrow> rat \<Rightarrow> int" where
  "channel c1 c2 t = js_round (of_int c1 + of_int (c2 - c1) * t)"

definition rgb :: "int \<Rightarrow> int \<Rightarrow> int \<Rightarrow> string" where
  "rgb r g b =
     ''rgb('' @ string_of_int r @ '', '' @ string_of_int g @ '', '' @ string_of_int b @ '')''"

text \<open>From \<open>0x9B, 0x96, 0xC9\<close> to \<open>0x41, 0x37, 0x8F\<close>.\<close>

definition sectionColorScale :: "rat \<Rightarrow> string" where
  "sectionColorScale t = rgb (channel 155 65 t) (channel 150 55 t) (channel 201 143 t)"

text \<open>From \<open>0xF9, 0xD9, 0x9B\<close> to \<open>0xF0, 0xA7, 0x34\<close>.\<close>

definition entityConceptColorScale :: "rat \<Rightarrow> string" where
  "entityConceptColorScale t = rgb (channel 249 240 t) (channel 217 167 t) (channel 155 52 t)"

definition strength :: "nat \<Rightarrow> nat \<Rightarrow> rat" where
  "strength maxVal v = of_nat v / of_nat maxVal"

definition assignColor :: "nat \<Rightarrow> GraphNode \<Rightarrow> GraphNode" where
  "assignColor maxVal node =
     (let t = strength maxVal (val_of node);
          c = (if node_type node = Section \<or> node_type node = Index then sectionColorScale t
               else if node_type node = Entity \<or> node_type node = Concept
               then entityConceptColorScale t
               else ''#AFBBE8'')
      in node\<lparr>color := Some c, baseColor := Some c\<rparr>)"

text \<open>\<open>Math.max(...nodes.map(n => n.val), 1)\<close>\<close>

definition maxValOf :: "GraphNode list \<Rightarrow> nat" where
  "maxValOf ns = fold max (map val_of ns) 1"

text \<open>The two \<open>nodes.forEach\<close> loops of step 8, on the objects at the positions \<open>selected\<close>.\<close>

definition decorate :: "nat list \<Rightarrow> GraphLink list \<Rightarrow> GraphNode list \<Rightarrow> GraphNode list" where
  "decorate selected ls ns =
     (let nodeDegree = countDegrees ls;
          ns1 = update_at selected (assignVal nodeDegree) ns;
          maxVal = maxValOf (map (\<lambda>k. ns1 ! k) selected)
      in update_at selected (assignColor maxVal) ns1)"

subsection \<open>buildNetwork\<close>

definition emptyResult :: FilteredGraph where
  "emptyResult = \<lparr>nodes = [], links = [], truncated = False, matchedCount = 0\<rparr>"

text \<open>
  Steps 3 to 8 on the candidates of steps 1 and 2. The positions in \<open>selected\<close> come
  from \<open>enumerate 0 (allNodes e)\<close>, so every \<open>!\<close> is in range.
\<close>

definition assemble ::
  "NetworkBuilder \<Rightarrow> NetworkBuilderState \<Rightarrow> RankingMode \<Rightarrow> string list
     \<Rightarrow> FilteredGraph \<times> NetworkBuilder" where
  "assemble e state nodeRankingMode cands =
     (let cmap = candidateNodeMap e cands;
          candidateNodes = map_values cmap;
          candLinks = candidateLinks e state cmap;
          connectedIds = connectedNodeIds state candidateNodes candLinks;
          totalMatches = length connectedIds;
          final = finalNodeIds e state nodeRankingMode connectedIds candLinks;
          sel = selectedNodeMap e state final;
          selected = map_values sel;
          ls = finalLinks sel candLinks;
          ns2 = decorate selected ls (allNodes e)
      in (\<lparr>nodes = map (\<lambda>k. ns2 ! k) selected, links = ls,
            truncated = (int totalMatches > maxTotalNodes state),
            matchedCount = totalMatches\<rparr>,
          e\<lparr>allNodes := ns2\<rparr>))"

text \<open>
  \<open>buildNetwork\<close> returns the \<open>FilteredGraph\<close> and the builder as the call leaves it.
\<close>

definition buildNetwork ::
  "NetworkBuilder \<Rightarrow> NetworkBuilderState \<Rightarrow> SearchLogic \<Rightarrow> RankingMode
     \<Rightarrow> FilteredGraph \<times> NetworkBuilder" where
  "buildNetwork e state searchLogic nodeRankingMode =
     (case candidateNodeIds e state searchLogic of
        None \<Rightarrow> (emptyResult, e)
      | Some cands \<Rightarrow> assemble e state nodeRankingMode cands)"

subsection \<open>The local variables of buildNetwork as functions of its inputs\<close>

definition candLinksOf :: "NetworkBuilder \<Rightarrow> NetworkBuilderState \<Rightarrow> string list \<Rightarrow> GraphLink list" where
  "candLinksOf e state cands = candidateLinks e state (candidateNodeMap e cands)"

definition connectedOf :: "NetworkBuilder \<Rightarrow> NetworkBuilderState \<Rightarrow> string list \<Rightarrow> string list" where
  "connectedOf e state cands =
     connectedNodeIds state (map_values (candidateNodeMap e cands)) (candLinksOf e state cands)"

definition finalOf ::
  "NetworkBuilder \<Rightarrow> NetworkBuilderState \<Rightarrow> RankingMode \<Rightarrow> string list \<Rightarrow> string list" where
  "finalOf e state nodeRankingMode cands =
     finalNodeIds e state nodeRankingMode (connectedOf e state cands) (candLinksOf e state cands)"

definition selOf ::
  "NetworkBuilder \<Rightarrow> NetworkBuilderState \<Rightarrow> RankingMode \<Rightarrow> string list
     \<Rightarrow> (string \<times> nat) list" where
  "selOf e state nodeRankingMode cands =
     selectedNodeMap e state (finalOf e state nodeRankingMode cands)"

definition linksOf ::
  "NetworkBuilder \<Rightarrow> NetworkBuilderState \<Rightarrow> RankingMode \<Rightarrow> string list \<Rightarrow> GraphLink list" where
  "linksOf e state nodeRankingMode cands =
     finalLinks (selOf e state nodeRankingMode cands) (candLinksOf e state cands)"

subsection \<open>Notions used in the statements\<close>

text \<open>The seven field names of the \<open>switch\<close> in \<open>searchNodes\<close>.\<close>

definition recognizedFields :: "string list" where
  "recognizedFields =
     [''text'', ''full_name'', ''display_label'', ''definition'', ''entity'', ''concept'',
      ''properties'']"

text \<open>
  The degree of an identifier in a link list, each link counted once per endpoint that
  is the identifier (a link from a node to itself counts twice), and the number of
  links of the list that touch the identifier.
\<close>

definition degreeIn :: "GraphLink list \<Rightarrow> string \<Rightarrow> nat" where
  "degreeIn ls i =
     length (filter (\<lambda>l. sourceId l = i) ls) + length (filter (\<lambda>l. targetId l = i) ls)"

definition incidentLinks :: "GraphLink list \<Rightarrow> string \<Rightarrow> GraphLink list" where
  "incidentLinks ls i = filter (\<lambda>l. sourceId l = i \<or> targetId l = i) ls"

text \<open>A node with its four runtime-computed fields cleared.\<close>

definition bare :: "GraphNode \<Rightarrow> GraphNode" where
  "bare n = n\<lparr>val := None, totalVal := None, color := None, baseColor := None\<rparr>"

text \<open>The builder with every node's runtime-computed fields cleared.\<close>

definition bareBuilder :: "NetworkBuilder \<Rightarrow> NetworkBuilder" where
  "bareBuilder e = e\<lparr>allNodes := map bare (allNodes e)\<rparr>"

text \<open>
  The Filter Stage in the words of the specification (section 4.4), for a snapshot and a
  candidate identifier set: an edge survives if its type is in the edge-type allow-list
  and both endpoints are candidates present in the snapshot; a node is retained if it
  has a surviving edge and its type passes the node-type allow-list, the empty list
  passing every type.
\<close>

definition spec_candidates :: "NetworkBuilder \<Rightarrow> string list \<Rightarrow> string set" where
  "spec_candidates e cands = set cands \<inter> node_id ` set (allNodes e)"

definition spec_survivingEdges ::
  "NetworkBuilder \<Rightarrow> NetworkBuilderState \<Rightarrow> string list \<Rightarrow> GraphLink set" where
  "spec_survivingEdges e state cands =
     {l \<in> set (allLinks e). edge_type l \<in> set (allowedEdgeTypes state)
        \<and> sourceId l \<in> spec_candidates e cands \<and> targetId l \<in> spec_candidates e cands}"

definition spec_retained :: "NetworkBuilder \<Rightarrow> NetworkBuilderState \<Rightarrow> string list \<Rightarrow> string set" where
  "spec_retained e state cands =
     {i. \<exists>n \<in> set (allNodes e). node_id n = i \<and> i \<in> set cands
          \<and> (allowedNodeTypes state = [] \<or> node_type n \<in> set (allowedNodeTypes state))
          \<and> (\<exists>l \<in> spec_survivingEdges e state cands. sourceId l = i \<or> targetId l = i)}"

subsection \<open>Example snapshots and queries\<close>

definition exampleNode :: "string \<Rightarrow> string \<Rightarrow> NodeType \<Rightarrow> GraphNode" where
  "exampleNode i nm ty =
     \<lparr>node_id = i, name = nm, node_type = ty, val = None, totalVal = None, color = None,
      baseColor = None, display_label = None, properties = None, full_name = None,
      node_text = None, section_text = None, index_heading = None, attrs = []\<rparr>"

definition exampleLink :: "string \<Rightarrow> string \<Rightarrow> EdgeType \<Rightarrow> GraphLink" where
  "exampleLink s t ty =
     \<lparr>source = IdRef s, target = IdRef t, edge_type = ty, action = ''refers to'',
      link_time = None, link_usc_title = None, link_source_title = None, weight = None,
      link_definition = None, location = None, timestamp = None\<rparr>"

text \<open>The snapshot of the scenarios of the specification: A - B - C.\<close>

definition snapshotABC :: NetworkBuilder where
  "snapshotABC =
     new_NetworkBuilder
       [exampleNode ''A'' ''Alpha'' Section, exampleNode ''B'' ''B'' Entity,
        exampleNode ''C'' ''Gamma'' Concept]
       [exampleLink ''A'' ''B'' Reference, exampleLink ''B'' ''C'' Definition]"

definition queryB :: NetworkBuilderState where
  "queryB =
     \<lparr>searchTerms = [''B''], searchFields = [''entity''],
      allowedNodeTypes = [Section, Entity, Concept],
      allowedEdgeTypes = [Reference, Definition], allowedTitles = [], allowedSections = [],
      seedNodeIds = [], expansionDepth = 1, maxNodesPerExpansion = 0, maxTotalNodes = 10\<rparr>"

text \<open>A query without search terms: the candidates are all nodes.\<close>

definition queryAll :: NetworkBuilderState where
  "queryAll =
     \<lparr>searchTerms = [], searchFields = [''text''],
      allowedNodeTypes = [Section, Entity, Concept, Index],
      allowedEdgeTypes = [Definition, Reference, Hierarchy], allowedTitles = [],
      allowedSections = [], seedNodeIds = [], expansionDepth = 0, maxNodesPerExpansion = 0,
      maxTotalNodes = 10\<rparr>"

text \<open>A snapshot with one node and one link from the node to itself.\<close>

definition snapshotLoop :: NetworkBuilder where
  "snapshotLoop =
     new_NetworkBuilder [exampleNode ''A'' ''Alpha'' Section] [exampleLink ''A'' ''A'' Reference]"

section \<open>Properties\<close>

subsection \<open>Containers\<close>

lemma set_set_add: "set (set_add s x) = insert x (set s)"
  by (auto simp: set_add_def)

lemma distinct_set_add: "distinct s \<Longrightarrow> distinct (set_add s x)"
  by (simp add: set_add_def)

lemma set_foldl_set_add: "set (foldl set_add acc xs) = set acc \<union> set xs"
  by (induction xs arbitrary: acc) (auto simp: set_set_add)

lemma distinct_foldl_set_add: "distinct acc \<Longrightarrow> distinct (foldl set_add acc xs)"
  by (induction xs arbitrary: acc) (auto simp: distinct_set_add)

lemma set_new_Set: "set (new_Set xs) = set xs"
  by (simp add: new_Set_def set_foldl_set_add)

lemma distinct_new_Set: "distinct (new_Set xs)"
  by (simp add: new_Set_def distinct_foldl_set_add)

lemma length_new_Set: "distinct xs \<Longrightarrow> length (new_Set xs) = length xs"
  using distinct_card [of xs] distinct_card [OF distinct_new_Set, of xs]
  by (simp add: set_new_Set)

lemma set_foldl_cond_add:
  "set (foldl (\<lambda>acc x. if P x then set_add acc (f x) else acc) acc xs)
     = set acc \<union> f ` {x \<in> set xs. P x}"
  by (induction xs arbitrary: acc) (auto simp: set_set_add)

subsection \<open>searchNodes\<close>

lemma set_searchNodes:
  "set (searchNodes e terms sf logic)
     = node_id ` {n \<in> set (allNodes e).
         nodeMatches logic (map (\<lambda>t. trim (toLowerCase t)) terms) sf n}"
  by (simp add: searchNodes_def set_foldl_cond_add)

lemma nodeMatches_AND_OR:
  "ts \<noteq> [] \<Longrightarrow> nodeMatches LogicAND ts sf n \<Longrightarrow> nodeMatches LogicOR ts sf n"
  by (cases ts) (auto simp: nodeMatches_def Let_def)

text \<open>
  Claim C9. For every node, every list of search fields and every non-empty list of search
  terms, a node that matches under AND logic matches under OR logic, and the set of
  identifiers \<open>searchNodes\<close> returns under AND is a subset of the set it returns under OR.
\<close>

theorem searchNodes_AND_subset_OR:
  "terms \<noteq> [] \<Longrightarrow>
     (\<forall>n. nodeMatches LogicAND (map (\<lambda>t. trim (toLowerCase t)) terms) sf n
        \<longrightarrow> nodeMatches LogicOR (map (\<lambda>t. trim (toLowerCase t)) terms) sf n)
     \<and> set (searchNodes e terms sf LogicAND) \<subseteq> set (searchNodes e terms sf LogicOR)"
  by (auto simp: set_searchNodes intro!: nodeMatches_AND_OR)

subsection \<open>expandFromSeeds\<close>

lemma visit_grows: "set (fst st) \<subseteq> set (fst (visit st n))"
  by (auto simp: visit_def set_set_add)

lemma foldl_visit_grows: "set (fst st) \<subseteq> set (fst (foldl visit st ns))"
proof (induction ns arbitrary: st)
  case Nil
  show ?case by simp
next
  case (Cons n ns)
  have "set (fst st) \<subseteq> set (fst (visit st n))" by (rule visit_grows)
  also have "\<dots> \<subseteq> set (fst (foldl visit (visit st n) ns))" by (rule Cons.IH)
  finally show ?case by simp
qed

lemma foldl_layer_grows:
  "set (fst st) \<subseteq> set (fst (foldl (\<lambda>st nodeId. foldl visit st (g nodeId)) st layer))"
proof (induction layer arbitrary: st)
  case Nil
  show ?case by simp
next
  case (Cons x layer)
  have "set (fst st) \<subseteq> set (fst (foldl visit st (g x)))" by (rule foldl_visit_grows)
  also have "\<dots> \<subseteq> set (fst (foldl (\<lambda>st nodeId. foldl visit st (g nodeId)) (foldl visit st (g x)) layer))"
    by (rule Cons.IH)
  finally show ?case by simp
qed

lemma expandLayer_grows: "set expanded \<subseteq> set (fst (expandLayer e maxN allowed expanded cur))"
  unfolding expandLayer_def using foldl_layer_grows [of "(expanded, [])"] by simp

lemma expandLoop_grows: "set expanded \<subseteq> set (expandLoop e maxN allowed k expanded cur)"
proof (induction k arbitrary: expanded cur)
  case 0
  show ?case by simp
next
  case (Suc k)
  let ?st = "expandLayer e maxN allowed expanded cur"
  have a: "set expanded \<subseteq> set (fst ?st)" by (rule expandLayer_grows)
  show ?case
  proof (cases "snd ?st = []")
    case True
    with a show ?thesis by (simp add: Let_def)
  next
    case False
    have "set (fst ?st) \<subseteq> set (expandLoop e maxN allowed k (fst ?st) (snd ?st))"
      by (rule Suc.IH)
    with a False show ?thesis by (auto simp: Let_def)
  qed
qed

lemma expandLoop_Suc_mono:
  "set (expandLoop e maxN allowed k expanded cur)
     \<subseteq> set (expandLoop e maxN allowed (Suc k) expanded cur)"
proof (induction k arbitrary: expanded cur)
  case 0
  have "set expanded \<subseteq> set (expandLoop e maxN allowed (Suc 0) expanded cur)"
    by (rule expandLoop_grows)
  then show ?case by simp
next
  case (Suc k)
  let ?st = "expandLayer e maxN allowed expanded cur"
  show ?case
  proof (cases "snd ?st = []")
    case True
    then show ?thesis by (simp add: Let_def)
  next
    case False
    have "set (expandLoop e maxN allowed k (fst ?st) (snd ?st))
            \<subseteq> set (expandLoop e maxN allowed (Suc k) (fst ?st) (snd ?st))"
      by (rule Suc.IH)
    with False show ?thesis by (simp add: Let_def)
  qed
qed

text \<open>
  Claim C8. For every seed set, edge-type allow-list, neighbour cap and depth \<open>d \<ge> 0\<close>,
  the set returned by \<open>expandFromSeeds\<close> at depth \<open>d\<close> is a subset of the set returned
  at depth \<open>d + 1\<close>, everything else fixed.
\<close>

theorem expandFromSeeds_depth_mono:
  "0 \<le> d \<Longrightarrow>
     set (expandFromSeeds e seedIds d maxN allowed)
       \<subseteq> set (expandFromSeeds e seedIds (d + 1) maxN allowed)"
proof -
  assume "0 \<le> d"
  then have "nat (d + 1) = Suc (nat d)" by simp
  then show ?thesis
    unfolding expandFromSeeds_def using expandLoop_Suc_mono by simp
qed

lemma all_edge_types: "(t::EdgeType) \<in> set [Definition, Reference, Hierarchy]"
  by (cases t) simp_all

lemma limitedNeighbors_empty_allowed:
  "limitedNeighbors e maxN [] = limitedNeighbors e maxN [Definition, Reference, Hierarchy]"
proof
  fix nodeId
  have "filter (\<lambda>n. edgeType n \<in> set [Definition, Reference, Hierarchy]) ns = ns" for ns :: "Neighbor list"
    using all_edge_types by (simp add: filter_id_conv del: set_simps) 
  then show "limitedNeighbors e maxN [] nodeId = limitedNeighbors e maxN [Definition, Reference, Hierarchy] nodeId"
    by (simp add: limitedNeighbors_def Let_def)
qed

lemma expandLoop_cong_allowed:
  "limitedNeighbors e maxN a = limitedNeighbors e maxN a' \<Longrightarrow>
     expandLoop e maxN a k expanded cur = expandLoop e maxN a' k expanded cur"
  by (induction k arbitrary: expanded cur) (simp_all add: expandLayer_def Let_def)

text \<open>
  Claim C2, as amended. With an empty \<open>allowedEdgeTypes\<close> list \<open>expandFromSeeds\<close> applies
  no edge-type filter (\<open>allowedEdgeTypes.length > 0 ? neighbors.filter(...) : neighbors\<close>):
  for every seed set, depth and neighbour cap it returns what it returns with all three
  edge types allowed.
\<close>

theorem expandFromSeeds_empty_allowed_is_wildcard:
  "expandFromSeeds e seedIds d maxN [] =
     expandFromSeeds e seedIds d maxN [Definition, Reference, Hierarchy]"
  unfolding expandFromSeeds_def
  by (rule expandLoop_cong_allowed) (rule limitedNeighbors_empty_allowed)

text \<open>
  Claim C2 as stated (the empty list permits no edge, the result is the seed set) fails:
  from the seed B at depth 1 the neighbours A and C are added.
\<close>

theorem expandFromSeeds_empty_allowed_counterexample:
  "set (expandFromSeeds snapshotABC [''B''] 1 0 []) \<noteq> set [''B'']"
  by code_simp

text \<open>Claim C8 at the snapshot A - B - C, seed B, depths 0 and 1.\<close>

theorem expandFromSeeds_depth_mono_witness:
  "(0::int) \<le> 0 \<and>
   set (expandFromSeeds snapshotABC [''B''] 0 0 [Reference])
       \<subseteq> set (expandFromSeeds snapshotABC [''B''] (0 + 1) 0 [Reference])
   \<and> set (expandFromSeeds snapshotABC [''B''] 0 0 [Reference]) = {''B''}
   \<and> set (expandFromSeeds snapshotABC [''B''] 1 0 [Reference]) = {''B'', ''A''}"
  using expandFromSeeds_depth_mono [of 0 snapshotABC "[''B'']" 0 "[Reference]"]
  apply simp
  apply code_simp
  done


text \<open>Claim C9 at the snapshot A - B - C: the node B matches the term B under both logics.\<close>

theorem searchNodes_AND_subset_OR_witness:
  "[''B''] \<noteq> ([] :: string list)
   \<and> nodeMatches LogicAND (map (\<lambda>t. trim (toLowerCase t)) [''B'']) [''entity'']
         (exampleNode ''B'' ''B'' Entity)
   \<and> nodeMatches LogicOR (map (\<lambda>t. trim (toLowerCase t)) [''B'']) [''entity'']
         (exampleNode ''B'' ''B'' Entity)
   \<and> set (searchNodes snapshotABC [''B''] [''entity''] LogicAND) = {''B''}
   \<and> set (searchNodes snapshotABC [''B''] [''entity''] LogicAND)
         \<subseteq> set (searchNodes snapshotABC [''B''] [''entity''] LogicOR)"
proof -
  have ne: "[''B''] \<noteq> ([] :: string list)" by simp
  have m: "nodeMatches LogicAND (map (\<lambda>t. trim (toLowerCase t)) [''B'']) [''entity'']
             (exampleNode ''B'' ''B'' Entity)"
    by code_simp
  have s: "set (searchNodes snapshotABC [''B''] [''entity''] LogicAND) = {''B''}"
    by code_simp
  from searchNodes_AND_subset_OR [OF ne, of "[''entity'']" snapshotABC] m s ne
  show ?thesis by blast
qed

subsection \<open>The seed re-filter\<close>

lemma new_Set_Nil: "new_Set [] = []"
  by (simp add: new_Set_def)

lemma seedsAfterFilter_no_types:
  "allowedNodeTypes state = [] \<Longrightarrow> seedsAfterFilter e state seeds = []"
  by (simp add: seedsAfterFilter_def new_Set_Nil split: option.split)

text \<open>
  Claim C1, as amended. For every snapshot and every query whose \<open>searchTerms\<close> and
  \<open>searchFields\<close> are both non-empty and whose search yields at least one seed, if
  \<open>allowedNodeTypes\<close> is empty then the seed re-filter of step 2
  (\<open>allowedNodeTypes.length > 0 && allowedNodeTypes.includes(node.node_type)\<close>) rejects
  every seed, and \<open>buildNetwork\<close> returns the empty result (no nodes, no links,
  \<open>truncated\<close> false, \<open>matchedCount\<close> 0) and leaves the builder as it was.
\<close>

theorem buildNetwork_empty_node_types_short_circuits:
  assumes "searchTerms state \<noteq> []" and "searchFields state \<noteq> []"
    and "searchNodes e (searchTerms state) (searchFields state) searchLogic \<noteq> []"
    and "allowedNodeTypes state = []"
  shows "seedsAfterFilter e state
           (searchNodes e (searchTerms state) (searchFields state) searchLogic) = []
         \<and> buildNetwork e state searchLogic nodeRankingMode = (emptyResult, e)"
  using assms
  by (simp add: buildNetwork_def candidateNodeIds_def usesSearch_def Let_def
      seedsAfterFilter_no_types)

text \<open>
  Claim C1 as stated (with the empty allow-list the result equals the one with all four
  node types allowed) fails at the snapshot A - B - C with the search term B: the empty
  list gives the empty result, the full list gives the three nodes.
\<close>

theorem buildNetwork_empty_node_types_counterexample:
  "searchTerms (queryB\<lparr>allowedNodeTypes := []\<rparr>) \<noteq> []
   \<and> searchFields (queryB\<lparr>allowedNodeTypes := []\<rparr>) \<noteq> []
   \<and> searchNodes snapshotABC (searchTerms (queryB\<lparr>allowedNodeTypes := []\<rparr>))
        (searchFields (queryB\<lparr>allowedNodeTypes := []\<rparr>)) LogicOR \<noteq> []
   \<and> allowedNodeTypes (queryB\<lparr>allowedNodeTypes := []\<rparr>) = []
   \<and> fst (buildNetwork snapshotABC (queryB\<lparr>allowedNodeTypes := []\<rparr>) LogicOR Global)
       \<noteq> fst (buildNetwork snapshotABC
                (queryB\<lparr>allowedNodeTypes := [Section, Entity, Concept, Index]\<rparr>) LogicOR Global)"
proof -
  have a: "nodes (fst (buildNetwork snapshotABC (queryB\<lparr>allowedNodeTypes := []\<rparr>) LogicOR Global)) = []"
    by code_simp
  have b: "map node_id (nodes (fst (buildNetwork snapshotABC
                (queryB\<lparr>allowedNodeTypes := [Section, Entity, Concept, Index]\<rparr>) LogicOR Global)))
           = [''A'', ''B'', ''C'']"
    by code_simp
  have c: "searchNodes snapshotABC (searchTerms (queryB\<lparr>allowedNodeTypes := []\<rparr>))
        (searchFields (queryB\<lparr>allowedNodeTypes := []\<rparr>)) LogicOR \<noteq> []"
    by code_simp
  from a b have "fst (buildNetwork snapshotABC (queryB\<lparr>allowedNodeTypes := []\<rparr>) LogicOR Global)
       \<noteq> fst (buildNetwork snapshotABC
                (queryB\<lparr>allowedNodeTypes := [Section, Entity, Concept, Index]\<rparr>) LogicOR Global)"
    by auto
  with c show ?thesis by (simp add: queryB_def)
qed

text \<open>Claim C1, as amended, at the snapshot A - B - C with the search term B.\<close>

theorem buildNetwork_empty_node_types_short_circuits_witness:
  "searchTerms (queryB\<lparr>allowedNodeTypes := []\<rparr>) \<noteq> []
   \<and> searchFields (queryB\<lparr>allowedNodeTypes := []\<rparr>) \<noteq> []
   \<and> searchNodes snapshotABC (searchTerms (queryB\<lparr>allowedNodeTypes := []\<rparr>))
        (searchFields (queryB\<lparr>allowedNodeTypes := []\<rparr>)) LogicOR = [''B'']
   \<and> allowedNodeTypes (queryB\<lparr>allowedNodeTypes := []\<rparr>) = []
   \<and> buildNetwork snapshotABC (queryB\<lparr>allowedNodeTypes := []\<rparr>) LogicOR Global
       = (emptyResult, snapshotABC)"
proof -
  let ?q = "queryB\<lparr>allowedNodeTypes := []\<rparr>"
  have h1: "searchTerms ?q \<noteq> []" by (simp add: queryB_def)
  have h2: "searchFields ?q \<noteq> []" by (simp add: queryB_def)
  have s: "searchNodes snapshotABC (searchTerms ?q) (searchFields ?q) LogicOR = [''B'']"
    by code_simp
  then have h3: "searchNodes snapshotABC (searchTerms ?q) (searchFields ?q) LogicOR \<noteq> []" by simp
  have h4: "allowedNodeTypes ?q = []" by simp
  from buildNetwork_empty_node_types_short_circuits [OF h1 h2 h3 h4, of Global] h1 h2 s h4
  show ?thesis by simp
qed

subsection \<open>Association lists in insertion order\<close>

lemma map_of_map_set: "map_of (map_set m k v) = (map_of m)(k \<mapsto> v)"
  by (induction m) (auto simp: fun_eq_iff)

lemma keys_map_set: "fst ` set (map_set m k v) = insert k (fst ` set m)"
  by (induction m) (auto split: if_splits simp: rev_image_eqI)

lemma set_map_set_subset: "set (map_set m k v) \<subseteq> insert (k, v) (set m)"
  by (induction m) (auto split: if_splits)

lemma distinct_keys_map_set: "distinct (map fst m) \<Longrightarrow> distinct (map fst (map_set m k v))"
proof (induction m)
  case Nil
  show ?case by simp
next
  case (Cons p m)
  obtain k' v' where p: "p = (k', v')" by (cases p)
  from Cons.prems p have d: "distinct (map fst m)" and n: "k' \<notin> fst ` set m" by auto
  show ?case
  proof (cases "k' = k")
    case True
    with d n p show ?thesis by simp
  next
    case False
    from Cons.IH [OF d] have "distinct (map fst (map_set m k v))" .
    moreover from n False have "k' \<notin> fst ` set (map_set m k v)" by (simp add: keys_map_set)
    ultimately show ?thesis using p False by simp
  qed
qed

lemma map_has_iff: "map_has m k \<longleftrightarrow> k \<in> fst ` set m"
  by (simp add: map_has_def map_of_eq_None_iff)

subsection \<open>Updating objects by position\<close>

lemma length_update_at: "length (update_at ks f xs) = length xs"
  by (simp add: update_at_def)

lemma nth_update_at:
  "k < length xs \<Longrightarrow> update_at ks f xs ! k = (if k \<in> set ks then f (xs ! k) else xs ! k)"
  by (simp add: update_at_def nth_enumerate_eq)

subsection \<open>Step 7: the selected node map\<close>

lemma enumerate_snoc: "enumerate 0 (ns @ [x]) = enumerate 0 ns @ [(length ns, x)]"
  by (simp add: enumerate_append_eq)

lemma selected_fold_inv:
  "distinct (map fst (foldl (selectNode state final) [] (enumerate 0 ns)))
   \<and> (\<forall>p \<in> set (foldl (selectNode state final) [] (enumerate 0 ns)).
         snd p < length ns \<and> node_id (ns ! snd p) = fst p)
   \<and> fst ` set (foldl (selectNode state final) [] (enumerate 0 ns))
        = node_id ` {n \<in> set ns. node_id n \<in> set final \<and> typeMatch state n}"
proof (induction ns rule: rev_induct)
  case Nil
  show ?case by simp
next
  case (snoc x ns)
  let ?m = "foldl (selectNode state final) [] (enumerate 0 ns)"
  from snoc.IH have d: "distinct (map fst ?m)"
    and r: "\<forall>p \<in> set ?m. snd p < length ns \<and> node_id (ns ! snd p) = fst p"
    and k: "fst ` set ?m = node_id ` {n \<in> set ns. node_id n \<in> set final \<and> typeMatch state n}"
    by blast+
  have step: "foldl (selectNode state final) [] (enumerate 0 (ns @ [x]))
                = selectNode state final ?m (length ns, x)"
    by (simp add: enumerate_snoc)
  show ?case
  proof (cases "node_id x \<in> set final \<and> typeMatch state x")
    case False
    then have eq: "selectNode state final ?m (length ns, x) = ?m"
      by (auto simp: selectNode_def)
    have r': "\<forall>p \<in> set ?m. snd p < length (ns @ [x]) \<and> node_id ((ns @ [x]) ! snd p) = fst p"
      using r by (auto simp: nth_append)
    have k': "fst ` set ?m
               = node_id ` {n \<in> set (ns @ [x]). node_id n \<in> set final \<and> typeMatch state n}"
      using k False by auto
    from d r' k' show ?thesis unfolding step eq by blast
  next
    case True
    then have eq: "selectNode state final ?m (length ns, x) = map_set ?m (node_id x) (length ns)"
      by (simp add: selectNode_def)
    have d': "distinct (map fst (map_set ?m (node_id x) (length ns)))"
      using d by (rule distinct_keys_map_set)
    have r': "\<forall>p \<in> set (map_set ?m (node_id x) (length ns)).
                snd p < length (ns @ [x]) \<and> node_id ((ns @ [x]) ! snd p) = fst p"
    proof
      fix p assume "p \<in> set (map_set ?m (node_id x) (length ns))"
      with set_map_set_subset [of ?m "node_id x" "length ns"]
      have "p = (node_id x, length ns) \<or> p \<in> set ?m" by auto
      then show "snd p < length (ns @ [x]) \<and> node_id ((ns @ [x]) ! snd p) = fst p"
        using r by (auto simp: nth_append)
    qed
    have k': "fst ` set (map_set ?m (node_id x) (length ns))
               = node_id ` {n \<in> set (ns @ [x]). node_id n \<in> set final \<and> typeMatch state n}"
      using k True by (auto simp: keys_map_set)
    from d' r' k' show ?thesis unfolding step eq by blast
  qed
qed

lemma distinct_selectedNodeMap: "distinct (map fst (selectedNodeMap e state final))"
  using selected_fold_inv [of state final "allNodes e"] by (simp add: selectedNodeMap_def)

lemma selectedNodeMap_entry:
  "(i, k) \<in> set (selectedNodeMap e state final) \<Longrightarrow>
     k < length (allNodes e) \<and> node_id (allNodes e ! k) = i"
  using selected_fold_inv [of state final "allNodes e"] by (force simp: selectedNodeMap_def)

lemma keys_selectedNodeMap:
  "fst ` set (selectedNodeMap e state final)
     = node_id ` {n \<in> set (allNodes e). node_id n \<in> set final \<and> typeMatch state n}"
  using selected_fold_inv [of state final "allNodes e"] by (simp add: selectedNodeMap_def)

subsection \<open>Step 8: the assignments\<close>

lemma node_id_assign [simp]:
  "node_id (assignVal nd n) = node_id n" "node_id (assignColor mv n) = node_id n"
  by (simp_all add: assignVal_def assignColor_def Let_def)

lemma node_type_assign [simp]:
  "node_type (assignVal nd n) = node_type n" "node_type (assignColor mv n) = node_type n"
  by (simp_all add: assignVal_def assignColor_def Let_def)

lemma val_assign [simp]:
  "val (assignVal nd n) = Some (deg_or1 nd (node_id n))" "val (assignColor mv n) = val n"
  by (simp_all add: assignVal_def assignColor_def Let_def)

lemma bare_assign [simp]: "bare (assignVal nd n) = bare n" "bare (assignColor mv n) = bare n"
  by (simp_all add: bare_def assignVal_def assignColor_def Let_def)

lemma length_decorate [simp]: "length (decorate sel ls ns) = length ns"
  by (simp add: decorate_def Let_def length_update_at)

lemma decorate_nth:
  assumes "k < length ns"
  shows "\<exists>mv. decorate sel ls ns ! k =
           (if k \<in> set sel then assignColor mv (assignVal (countDegrees ls) (ns ! k)) else ns ! k)"
  using assms by (auto simp: decorate_def Let_def nth_update_at length_update_at)

lemma decorate_nth_out: "k < length ns \<Longrightarrow> k \<notin> set sel \<Longrightarrow> decorate sel ls ns ! k = ns ! k"
  using decorate_nth [of k ns sel ls] by simp

lemma decorate_nth_id: "k < length ns \<Longrightarrow> node_id (decorate sel ls ns ! k) = node_id (ns ! k)"
  using decorate_nth [of k ns sel ls] by (auto split: if_splits)

lemma decorate_nth_val:
  "k < length ns \<Longrightarrow> k \<in> set sel \<Longrightarrow>
     val (decorate sel ls ns ! k) = Some (deg_or1 (countDegrees ls) (node_id (ns ! k)))"
  using decorate_nth [of k ns sel ls] by auto

lemma map_bare_decorate: "map bare (decorate sel ls ns) = map bare ns"
proof (rule nth_equalityI)
  show "length (map bare (decorate sel ls ns)) = length (map bare ns)" by simp
next
  fix k assume "k < length (map bare (decorate sel ls ns))"
  then have k: "k < length ns" by simp
  from decorate_nth [OF k, of sel ls] have "bare (decorate sel ls ns ! k) = bare (ns ! k)"
    by (auto split: if_splits)
  with k show "map bare (decorate sel ls ns) ! k = map bare ns ! k" by simp
qed

subsection \<open>The result of assemble\<close>

lemma nodes_assemble:
  "nodes (fst (assemble e state mode cands)) =
     map (\<lambda>k. decorate (map snd (selOf e state mode cands)) (linksOf e state mode cands)
                 (allNodes e) ! k)
       (map snd (selOf e state mode cands))"
  by (simp add: assemble_def Let_def selOf_def linksOf_def finalOf_def connectedOf_def
      candLinksOf_def map_values_def)

lemma links_assemble: "links (fst (assemble e state mode cands)) = linksOf e state mode cands"
  by (simp add: assemble_def Let_def selOf_def linksOf_def finalOf_def connectedOf_def
      candLinksOf_def map_values_def)

lemma matchedCount_assemble:
  "matchedCount (fst (assemble e state mode cands)) = length (connectedOf e state cands)"
  by (simp add: assemble_def Let_def connectedOf_def candLinksOf_def)

lemma truncated_assemble:
  "truncated (fst (assemble e state mode cands))
     = (int (length (connectedOf e state cands)) > maxTotalNodes state)"
  by (simp add: assemble_def Let_def connectedOf_def candLinksOf_def)

lemma snd_assemble:
  "snd (assemble e state mode cands) =
     e\<lparr>allNodes := decorate (map snd (selOf e state mode cands)) (linksOf e state mode cands)
                      (allNodes e)\<rparr>"
  by (simp add: assemble_def Let_def selOf_def linksOf_def finalOf_def connectedOf_def
      candLinksOf_def map_values_def)

lemma selOf_entry:
  "(i, k) \<in> set (selOf e state mode cands) \<Longrightarrow>
     k < length (allNodes e) \<and> node_id (allNodes e ! k) = i"
  unfolding selOf_def by (rule selectedNodeMap_entry)

lemma node_ids_assemble:
  "map node_id (nodes (fst (assemble e state mode cands))) = map fst (selOf e state mode cands)"
proof -
  have "node_id (decorate sel ls (allNodes e) ! snd p) = fst p"
    if "p \<in> set (selOf e state mode cands)" for p sel ls
  proof -
    from that selOf_entry [of "fst p" "snd p" e state mode cands]
    have "snd p < length (allNodes e)" and "node_id (allNodes e ! snd p) = fst p" by simp_all
    then show ?thesis by (simp add: decorate_nth_id)
  qed
  then show ?thesis by (simp add: nodes_assemble comp_def)
qed

lemma sourceId_freshLink [simp]: "sourceId (freshLink l) = sourceId l"
  by (simp add: freshLink_def sourceId_def)

lemma targetId_freshLink [simp]: "targetId (freshLink l) = targetId l"
  by (simp add: freshLink_def targetId_def)

lemma linksOf_endpoints:
  assumes "l \<in> set (linksOf e state mode cands)"
  shows "sourceId l \<in> fst ` set (selOf e state mode cands)
         \<and> targetId l \<in> fst ` set (selOf e state mode cands)"
  using assms by (auto simp: linksOf_def finalLinks_def map_has_iff)
    (metis fst_conv image_eqI)+

text \<open>
  Claim C6. For every snapshot, query, search logic and ranking mode, every link of the
  returned link list has its source identifier and its target identifier among the
  identifiers of the returned node list.
\<close>

theorem buildNetwork_no_dangling_links:
  "\<forall>l \<in> set (links (fst (buildNetwork e state searchLogic nodeRankingMode))).
     sourceId l \<in> node_id ` set (nodes (fst (buildNetwork e state searchLogic nodeRankingMode)))
     \<and> targetId l \<in> node_id ` set (nodes (fst (buildNetwork e state searchLogic nodeRankingMode)))"
proof (cases "candidateNodeIds e state searchLogic")
  case None
  then show ?thesis by (simp add: buildNetwork_def emptyResult_def)
next
  case (Some cands)
  have ids: "node_id ` set (nodes (fst (assemble e state nodeRankingMode cands)))
               = fst ` set (selOf e state nodeRankingMode cands)"
    using node_ids_assemble [of e state nodeRankingMode cands]
    by (metis list.set_map)
  show ?thesis
    using Some linksOf_endpoints [of _ e state nodeRankingMode cands]
    by (simp add: buildNetwork_def links_assemble ids)
qed

text \<open>Claim C6 at the snapshot A - B - C: two links, both between returned nodes.\<close>

theorem buildNetwork_no_dangling_links_witness:
  "map (\<lambda>l. (sourceId l, targetId l)) (links (fst (buildNetwork snapshotABC queryB LogicOR Global)))
     = [(''A'', ''B''), (''B'', ''C'')]
   \<and> map node_id (nodes (fst (buildNetwork snapshotABC queryB LogicOR Global)))
     = [''A'', ''B'', ''C'']
   \<and> list_all (\<lambda>l. sourceId l \<in> node_id ` set (nodes (fst (buildNetwork snapshotABC queryB LogicOR Global)))
        \<and> targetId l \<in> node_id ` set (nodes (fst (buildNetwork snapshotABC queryB LogicOR Global))))
       (links (fst (buildNetwork snapshotABC queryB LogicOR Global)))"
proof -
  have a: "map (\<lambda>l. (sourceId l, targetId l)) (links (fst (buildNetwork snapshotABC queryB LogicOR Global)))
     = [(''A'', ''B''), (''B'', ''C'')]"
    by code_simp
  have b: "map node_id (nodes (fst (buildNetwork snapshotABC queryB LogicOR Global)))
     = [''A'', ''B'', ''C'']"
    by code_simp
  from a b buildNetwork_no_dangling_links [of snapshotABC queryB LogicOR Global]
  show ?thesis by (simp add: list_all_iff)
qed

subsection \<open>Degrees\<close>

lemma deg_or0_map_set: "deg_or0 (map_set m k v) i = (if i = k then v else deg_or0 m i)"
  by (simp add: deg_or0_def map_get_def map_of_map_set)

lemma deg_or0_bumpLink:
  "deg_or0 (bumpLink m l) i =
     deg_or0 m i + (if sourceId l = i then 1 else 0) + (if targetId l = i then 1 else 0)"
  by (simp add: bumpLink_def Let_def deg_or0_map_set)

lemma deg_or0_foldl_bumpLink: "deg_or0 (foldl bumpLink m ls) i = deg_or0 m i + degreeIn ls i"
  by (induction ls arbitrary: m) (simp_all add: degreeIn_def deg_or0_bumpLink)

lemma deg_or0_countDegrees: "deg_or0 (countDegrees ls) i = degreeIn ls i"
  by (simp add: countDegrees_def deg_or0_foldl_bumpLink) (simp add: deg_or0_def map_get_def)

lemma deg_or1_deg_or0: "deg_or1 m i = (if 0 < deg_or0 m i then deg_or0 m i else 1)"
  by (simp add: deg_or1_def deg_or0_def split: option.split)

lemma deg_or1_countDegrees:
  "deg_or1 (countDegrees ls) i = (if 0 < degreeIn ls i then degreeIn ls i else 1)"
  by (simp add: deg_or1_deg_or0 deg_or0_countDegrees)

lemma assemble_node_val:
  assumes "n \<in> set (nodes (fst (assemble e state mode cands)))"
  shows "val n = Some (deg_or1 (countDegrees (linksOf e state mode cands)) (node_id n))"
proof -
  let ?sel = "selOf e state mode cands"
  let ?D = "decorate (map snd ?sel) (linksOf e state mode cands) (allNodes e)"
  from assms obtain p where p: "p \<in> set ?sel" and n: "n = ?D ! snd p"
    by (auto simp: nodes_assemble)
  from p selOf_entry [of "fst p" "snd p" e state mode cands]
  have k: "snd p < length (allNodes e)" by simp
  from p have s: "snd p \<in> set (map snd ?sel)" by simp
  from decorate_nth_val [OF k s] decorate_nth_id [OF k] n show ?thesis by simp
qed

text \<open>
  Claim C10, as amended. For every snapshot and every query, every node of the returned
  node list carries \<open>val\<close> equal to its degree in the returned link list when that
  degree is positive, and \<open>val\<close> equal to 1 when it is zero, where the degree counts
  each returned link once for its source and once for its target, so that a link from
  the node to itself counts twice. In particular \<open>val \<ge> 1\<close>, and a node left without
  links is reported with display degree 1.
\<close>

theorem buildNetwork_val_is_degree:
  "\<forall>n \<in> set (nodes (fst (buildNetwork e state searchLogic nodeRankingMode))).
     val n = Some (if 0 < degreeIn (links (fst (buildNetwork e state searchLogic nodeRankingMode)))
                          (node_id n)
                   then degreeIn (links (fst (buildNetwork e state searchLogic nodeRankingMode)))
                          (node_id n)
                   else 1)"
proof (cases "candidateNodeIds e state searchLogic")
  case None
  then show ?thesis by (simp add: buildNetwork_def emptyResult_def)
next
  case (Some cands)
  then show ?thesis
    using assemble_node_val [of _ e state nodeRankingMode cands]
    by (simp add: buildNetwork_def links_assemble deg_or1_countDegrees)
qed

text \<open>Claim C10, as amended, at the snapshot A - B - C: degrees 1, 2 and 1.\<close>

theorem buildNetwork_val_is_degree_witness:
  "map node_id (nodes (fst (buildNetwork snapshotABC queryB LogicOR Global))) = [''A'', ''B'', ''C'']
   \<and> map (degreeIn (links (fst (buildNetwork snapshotABC queryB LogicOR Global))))
        [''A'', ''B'', ''C''] = [1, 2, 1]
   \<and> map val (nodes (fst (buildNetwork snapshotABC queryB LogicOR Global)))
        = [Some 1, Some 2, Some 1]"
proof -
  let ?r = "fst (buildNetwork snapshotABC queryB LogicOR Global)"
  have a: "map node_id (nodes ?r) = [''A'', ''B'', ''C'']" by code_simp
  have b: "map (degreeIn (links ?r)) [''A'', ''B'', ''C''] = [1, 2, 1]" by code_simp
  from a obtain x y z where xs: "nodes ?r = [x, y, z]"
    and ids: "node_id x = ''A''" "node_id y = ''B''" "node_id z = ''C''"
    by (auto simp: map_eq_Cons_conv)
  from buildNetwork_val_is_degree [of snapshotABC queryB LogicOR Global] xs ids b
  have "map val (nodes ?r) = [Some 1, Some 2, Some 1]" by simp
  with a b show ?thesis by simp
qed

text \<open>
  Claim C10 as stated (\<open>val\<close> is the number of incident links) fails on a link from a
  node to itself: the node A has one incident link in the result and \<open>val\<close> 2.
\<close>

theorem buildNetwork_val_self_loop_counterexample:
  "map node_id (nodes (fst (buildNetwork snapshotLoop queryAll LogicOR Global))) = [''A'']
   \<and> length (incidentLinks (links (fst (buildNetwork snapshotLoop queryAll LogicOR Global))) ''A'') = 1
   \<and> map val (nodes (fst (buildNetwork snapshotLoop queryAll LogicOR Global))) = [Some 2]"
  by code_simp

subsection \<open>The builder after the call\<close>

text \<open>
  Claim C4, as amended. For every snapshot and every query, \<open>buildNetwork\<close> leaves the
  link list and the adjacency map unchanged and changes no field of a node other than
  \<open>val\<close>, \<open>totalVal\<close>, \<open>color\<close> and \<open>baseColor\<close>; a node object it changes is one
  of the returned nodes.
\<close>

theorem buildNetwork_frame:
  fixes e state searchLogic nodeRankingMode
  defines "r \<equiv> fst (buildNetwork e state searchLogic nodeRankingMode)"
    and "e' \<equiv> snd (buildNetwork e state searchLogic nodeRankingMode)"
  shows "allLinks e' = allLinks e \<and> adjacencyMap e' = adjacencyMap e
         \<and> map bare (allNodes e') = map bare (allNodes e)
         \<and> (\<forall>k < length (allNodes e).
               allNodes e' ! k = allNodes e ! k \<or> allNodes e' ! k \<in> set (nodes r))"
proof (cases "candidateNodeIds e state searchLogic")
  case None
  then show ?thesis by (simp add: r_def e'_def buildNetwork_def)
next
  case (Some cands)
  let ?sel = "selOf e state nodeRankingMode cands"
  let ?D = "decorate (map snd ?sel) (linksOf e state nodeRankingMode cands) (allNodes e)"
  from Some have e': "e' = e\<lparr>allNodes := ?D\<rparr>"
    by (simp add: e'_def buildNetwork_def snd_assemble)
  from Some have r: "nodes r = map (\<lambda>k. ?D ! k) (map snd ?sel)"
    by (simp add: r_def buildNetwork_def nodes_assemble)
  have "allNodes e' ! k = allNodes e ! k \<or> allNodes e' ! k \<in> set (nodes r)"
    if k: "k < length (allNodes e)" for k
  proof (cases "k \<in> set (map snd ?sel)")
    case True
    then have "?D ! k \<in> (\<lambda>k. ?D ! k) ` set (map snd ?sel)" by (rule imageI)
    then have "?D ! k \<in> set (nodes r)" unfolding r by (simp only: set_map)
    then show ?thesis by (simp add: e')
  next
    case False
    with k show ?thesis by (simp add: e' decorate_nth_out)
  qed
  then show ?thesis by (simp add: e' map_bare_decorate)
qed

text \<open>
  Claim C4 as stated (every field of every node, \<open>val\<close> included, is as before the call)
  fails at the snapshot A - B - C: step 8 assigns \<open>val\<close> on the three node objects of
  the snapshot.
\<close>

theorem buildNetwork_frame_counterexample:
  "map val (allNodes snapshotABC) = [None, None, None]
   \<and> map val (allNodes (snd (buildNetwork snapshotABC queryB LogicOR Global)))
        = [Some 1, Some 2, Some 1]
   \<and> snd (buildNetwork snapshotABC queryB LogicOR Global) \<noteq> snapshotABC"
proof -
  have a: "map val (allNodes snapshotABC) = [None, None, None]" by code_simp
  have b: "map val (allNodes (snd (buildNetwork snapshotABC queryB LogicOR Global)))
        = [Some 1, Some 2, Some 1]" by code_simp
  from a b have "snd (buildNetwork snapshotABC queryB LogicOR Global) \<noteq> snapshotABC" by auto
  with a b show ?thesis by simp
qed

text \<open>Claim C4, as amended, at the snapshot A - B - C and its first node.\<close>

theorem buildNetwork_frame_witness:
  "length (allNodes snapshotABC) = 3
   \<and> allLinks (snd (buildNetwork snapshotABC queryB LogicOR Global)) = allLinks snapshotABC
   \<and> adjacencyMap (snd (buildNetwork snapshotABC queryB LogicOR Global)) = adjacencyMap snapshotABC
   \<and> map bare (allNodes (snd (buildNetwork snapshotABC queryB LogicOR Global)))
       = map bare (allNodes snapshotABC)
   \<and> (allNodes (snd (buildNetwork snapshotABC queryB LogicOR Global)) ! 0 = allNodes snapshotABC ! 0
       \<or> allNodes (snd (buildNetwork snapshotABC queryB LogicOR Global)) ! 0
           \<in> set (nodes (fst (buildNetwork snapshotABC queryB LogicOR Global))))"
proof -
  have l: "length (allNodes snapshotABC) = 3" by code_simp
  from buildNetwork_frame [of snapshotABC queryB LogicOR Global] l
  show ?thesis by simp
qed


subsection \<open>Steps 3 to 5: candidates, links and connected nodes\<close>

lemma candidate_fold_inv:
  "(\<forall>p \<in> set (foldl (\<lambda>m n. if node_id n \<in> set cands then map_set m (node_id n) n else m) [] ns).
      snd p \<in> set ns \<and> node_id (snd p) = fst p)
   \<and> fst ` set (foldl (\<lambda>m n. if node_id n \<in> set cands then map_set m (node_id n) n else m) [] ns)
        = node_id ` {n \<in> set ns. node_id n \<in> set cands}"
proof (induction ns rule: rev_induct)
  case Nil
  show ?case by simp
next
  case (snoc x ns)
  let ?m = "foldl (\<lambda>m n. if node_id n \<in> set cands then map_set m (node_id n) n else m) [] ns"
  from snoc.IH have r: "\<forall>p \<in> set ?m. snd p \<in> set ns \<and> node_id (snd p) = fst p"
    and k: "fst ` set ?m = node_id ` {n \<in> set ns. node_id n \<in> set cands}"
    by blast+
  show ?case
  proof (cases "node_id x \<in> set cands")
    case False
    with r k show ?thesis by auto
  next
    case True
    have r': "\<forall>p \<in> set (map_set ?m (node_id x) x).
                snd p \<in> set (ns @ [x]) \<and> node_id (snd p) = fst p"
    proof
      fix p assume "p \<in> set (map_set ?m (node_id x) x)"
      with set_map_set_subset [of ?m "node_id x" x]
      have "p = (node_id x, x) \<or> p \<in> set ?m" by auto
      then show "snd p \<in> set (ns @ [x]) \<and> node_id (snd p) = fst p"
        using r by auto
    qed
    have k': "fst ` set (map_set ?m (node_id x) x)
               = node_id ` {n \<in> set (ns @ [x]). node_id n \<in> set cands}"
      using k True by (auto simp: keys_map_set)
    from r' k' True show ?thesis by simp
  qed
qed

lemma candidateNodeMap_entry:
  "p \<in> set (candidateNodeMap e cands) \<Longrightarrow> snd p \<in> set (allNodes e) \<and> node_id (snd p) = fst p"
  using candidate_fold_inv [of cands "allNodes e"] by (simp add: candidateNodeMap_def)

lemma keys_candidateNodeMap:
  "fst ` set (candidateNodeMap e cands) = spec_candidates e cands"
  using candidate_fold_inv [of cands "allNodes e"]
  by (auto simp: candidateNodeMap_def spec_candidates_def)

lemma set_nodesWithEdges_aux:
  "set (foldl (\<lambda>s link. set_add (set_add s (sourceId link)) (targetId link)) acc ls)
     = set acc \<union> sourceId ` set ls \<union> targetId ` set ls"
  by (induction ls arbitrary: acc) (auto simp: set_set_add)

lemma set_nodesWithEdges: "set (nodesWithEdges ls) = sourceId ` set ls \<union> targetId ` set ls"
  by (simp add: nodesWithEdges_def set_nodesWithEdges_aux)

lemma set_connectedNodeIds:
  "set (connectedNodeIds state cn cl)
     = node_id ` {n \<in> set cn. node_id n \<in> set (nodesWithEdges cl) \<and> typeMatch state n}"
  by (simp add: connectedNodeIds_def set_new_Set)

lemma distinct_connectedNodeIds: "distinct (connectedNodeIds state cn cl)"
  by (simp add: connectedNodeIds_def distinct_new_Set)

lemma connectedOf_node:
  assumes "i \<in> set (connectedOf e state cands)"
  shows "\<exists>n \<in> set (allNodes e). node_id n = i \<and> typeMatch state n"
proof -
  from assms obtain n where n: "n \<in> set (map_values (candidateNodeMap e cands))"
    and i: "node_id n = i" and t: "typeMatch state n"
    by (auto simp: connectedOf_def set_connectedNodeIds)
  from n obtain p where "p \<in> set (candidateNodeMap e cands)" and "snd p = n"
    by (auto simp: map_values_def)
  with candidateNodeMap_entry [of p e cands] have "n \<in> set (allNodes e)" by simp
  with i t show ?thesis by blast
qed

lemma connectedOf_has_edge:
  "i \<in> set (connectedOf e state cands) \<Longrightarrow> i \<in> set (nodesWithEdges (candLinksOf e state cands))"
  by (auto simp: connectedOf_def set_connectedNodeIds)

subsection \<open>Step 6: the node cap\<close>

lemma keys_foldl_bumpLink:
  "fst ` set (foldl bumpLink m ls) = fst ` set m \<union> sourceId ` set ls \<union> targetId ` set ls"
  by (induction ls arbitrary: m) (auto simp: bumpLink_def Let_def keys_map_set)

lemma map_has_countDegrees: "map_has (countDegrees ls) i \<longleftrightarrow> i \<in> set (nodesWithEdges ls)"
  by (simp add: map_has_iff countDegrees_def keys_foldl_bumpLink set_nodesWithEdges)

lemma slice0_nonneg: "0 \<le> n \<Longrightarrow> slice0 xs n = take (nat n) xs"
  by (simp add: slice0_def)

lemma degree_fold_keys:
  "fst ` set (foldl (\<lambda>m i. map_set m i (h i)) m0 ids) = fst ` set m0 \<union> set ids
   \<and> (distinct (map fst m0) \<longrightarrow> distinct (map fst (foldl (\<lambda>m i. map_set m i (h i)) m0 ids)))"
  by (induction ids arbitrary: m0) (auto simp: keys_map_set distinct_keys_map_set)

lemma distinct_map_fst_sort:
  "distinct (map fst (sort_key g xs)) = distinct (map fst xs)"
  by (simp add: distinct_map)

lemma topGlobal_props:
  assumes d: "distinct ids" and n: "0 \<le> n" and l: "nat n \<le> length ids"
  shows "distinct (selectTopNodesByDegree e ids n)
         \<and> set (selectTopNodesByDegree e ids n) \<subseteq> set ids
         \<and> length (selectTopNodesByDegree e ids n) = nat n"
proof -
  let ?nd = "foldl (\<lambda>m nodeId. map_set m nodeId (length (adj_get (adjacencyMap e) nodeId))) [] ids"
  let ?L = "map fst (sort_key (\<lambda>entry. - int (snd entry)) ?nd)"
  from degree_fold_keys [of "\<lambda>i. length (adj_get (adjacencyMap e) i)" "[]" ids]
  have k: "fst ` set ?nd = set ids" and dk: "distinct (map fst ?nd)" by simp_all
  have dL: "distinct ?L" using dk by (simp only: distinct_map_fst_sort)
  have sL: "set ?L = set ids" using k by simp
  have "length ?L = card (set ?L)" using dL by (simp only: distinct_card)
  also have "\<dots> = length ids" using sL d by (simp only: distinct_card)
  finally have lL: "length ?L = length ids" .
  have top: "selectTopNodesByDegree e ids n = take (nat n) ?L"
    using n by (simp add: selectTopNodesByDegree_def Let_def slice0_nonneg take_map)
  have "set (take (nat n) ?L) \<subseteq> set ?L" by (rule set_take_subset)
  with dL sL lL l show ?thesis unfolding top by simp
qed

lemma topSubgraph_props:
  assumes d: "distinct ids" and n: "0 \<le> maxTotalNodes state"
    and l: "nat (maxTotalNodes state) \<le> length ids"
    and h: "\<forall>i \<in> set ids. i \<in> set (nodesWithEdges cl)"
  shows "distinct (topSubgraph state ids cl)
         \<and> set (topSubgraph state ids cl) \<subseteq> set ids
         \<and> length (topSubgraph state ids cl) = nat (maxTotalNodes state)"
proof -
  let ?nd = "countDegrees cl"
  let ?L = "sort_key (\<lambda>i. - int (deg_or0 ?nd i)) ids"
  from h have f: "filter (\<lambda>nodeId. map_has ?nd nodeId) ids = ids"
    by (simp add: map_has_countDegrees filter_id_conv)
  have top: "topSubgraph state ids cl = take (nat (maxTotalNodes state)) ?L"
    using n by (simp add: topSubgraph_def Let_def f slice0_nonneg)
  have "set (take (nat (maxTotalNodes state)) ?L) \<subseteq> set ?L" by (rule set_take_subset)
  with d l show ?thesis unfolding top by simp
qed

lemma finalNodeIds_props:
  assumes d: "distinct ids" and n: "0 \<le> maxTotalNodes state"
    and h: "\<forall>i \<in> set ids. i \<in> set (nodesWithEdges cl)"
  shows "distinct (finalNodeIds e state mode ids cl)
         \<and> set (finalNodeIds e state mode ids cl) \<subseteq> set ids
         \<and> length (finalNodeIds e state mode ids cl)
             = (if int (length ids) > maxTotalNodes state then nat (maxTotalNodes state)
                else length ids)"
proof (cases "int (length ids) > maxTotalNodes state")
  case False
  with d show ?thesis by (simp add: finalNodeIds_def)
next
  case True
  with n have l: "nat (maxTotalNodes state) \<le> length ids" by simp
  show ?thesis
  proof (cases "mode = Subgraph")
    case True
    from topSubgraph_props [OF d n l h]
    have "distinct (topSubgraph state ids cl)" "set (topSubgraph state ids cl) \<subseteq> set ids"
      "length (topSubgraph state ids cl) = nat (maxTotalNodes state)" by simp_all
    with True \<open>int (length ids) > maxTotalNodes state\<close> show ?thesis
      by (simp add: finalNodeIds_def set_new_Set distinct_new_Set length_new_Set)
  next
    case False
    from topGlobal_props [OF d n l, of e]
    have "distinct (selectTopNodesByDegree e ids (maxTotalNodes state))"
      "set (selectTopNodesByDegree e ids (maxTotalNodes state)) \<subseteq> set ids"
      "length (selectTopNodesByDegree e ids (maxTotalNodes state)) = nat (maxTotalNodes state)"
      by simp_all
    with False \<open>int (length ids) > maxTotalNodes state\<close> show ?thesis
      by (simp add: finalNodeIds_def set_new_Set distinct_new_Set length_new_Set)
  qed
qed

lemma finalOf_props:
  assumes "0 \<le> maxTotalNodes state"
  shows "distinct (finalOf e state mode cands)
         \<and> set (finalOf e state mode cands) \<subseteq> set (connectedOf e state cands)
         \<and> length (finalOf e state mode cands)
             = (if int (length (connectedOf e state cands)) > maxTotalNodes state
                then nat (maxTotalNodes state) else length (connectedOf e state cands))"
  unfolding finalOf_def
proof (rule finalNodeIds_props [OF _ assms])
  show "distinct (connectedOf e state cands)"
    by (simp add: connectedOf_def distinct_connectedNodeIds)
  show "\<forall>i \<in> set (connectedOf e state cands). i \<in> set (nodesWithEdges (candLinksOf e state cands))"
    using connectedOf_has_edge by blast
qed

lemma length_selOf:
  assumes "0 \<le> maxTotalNodes state"
  shows "length (selOf e state mode cands) = length (finalOf e state mode cands)"
proof -
  let ?final = "finalOf e state mode cands"
  let ?sel = "selOf e state mode cands"
  from finalOf_props [OF assms, of e mode cands]
  have df: "distinct ?final" and sf: "set ?final \<subseteq> set (connectedOf e state cands)" by simp_all
  have "fst ` set ?sel = set ?final"
  proof
    show "fst ` set ?sel \<subseteq> set ?final"
      by (auto simp: selOf_def keys_selectedNodeMap)
    show "set ?final \<subseteq> fst ` set ?sel"
    proof
      fix i assume i: "i \<in> set ?final"
      with sf connectedOf_node [of i e state cands]
      obtain n where "n \<in> set (allNodes e)" "node_id n = i" "typeMatch state n" by blast
      with i show "i \<in> fst ` set ?sel" by (auto simp: selOf_def keys_selectedNodeMap)
    qed
  qed
  then have "set (map fst ?sel) = set ?final" by simp
  moreover have "distinct (map fst ?sel)" by (simp add: selOf_def distinct_selectedNodeMap)
  ultimately have "length (map fst ?sel) = length ?final"
    using df by (metis distinct_card)
  then show ?thesis by simp
qed

lemma length_nodes_assemble:
  assumes "0 \<le> maxTotalNodes state"
  shows "length (nodes (fst (assemble e state mode cands)))
           = (if int (length (connectedOf e state cands)) > maxTotalNodes state
              then nat (maxTotalNodes state) else length (connectedOf e state cands))"
  using length_selOf [OF assms, of e mode cands] finalOf_props [OF assms, of e mode cands]
  by (simp add: nodes_assemble)

subsection \<open>The Filter Stage of the specification\<close>

lemma map_set_new: "k \<notin> fst ` set m \<Longrightarrow> map_set m k v = m @ [(k, v)]"
  by (induction m) auto

lemma candidate_fold_distinct:
  "distinct (map node_id ns) \<Longrightarrow>
     foldl (\<lambda>m n. if node_id n \<in> set cands then map_set m (node_id n) n else m) [] ns
       = map (\<lambda>n. (node_id n, n)) (filter (\<lambda>n. node_id n \<in> set cands) ns)"
proof (induction ns rule: rev_induct)
  case Nil
  show ?case by simp
next
  case (snoc x ns)
  from snoc.prems have d: "distinct (map node_id ns)" and x: "node_id x \<notin> node_id ` set ns"
    by simp_all
  from x have "node_id x \<notin> fst ` set (map (\<lambda>n. (node_id n, n)) (filter (\<lambda>n. node_id n \<in> set cands) ns))"
    by (auto simp: image_iff)
  then show ?case using snoc.IH [OF d] by (simp add: map_set_new)
qed

lemma values_candidateNodeMap:
  "distinct (map node_id (allNodes e)) \<Longrightarrow>
     map_values (candidateNodeMap e cands) = filter (\<lambda>n. node_id n \<in> set cands) (allNodes e)"
  by (simp add: candidateNodeMap_def map_values_def candidate_fold_distinct comp_def)

lemma set_candLinksOf: "set (candLinksOf e state cands) = spec_survivingEdges e state cands"
  by (auto simp: candLinksOf_def candidateLinks_def edgeTypeMatch_def map_has_iff
      keys_candidateNodeMap spec_survivingEdges_def)

lemma set_connectedOf:
  assumes "distinct (map node_id (allNodes e))"
  shows "set (connectedOf e state cands) = spec_retained e state cands"
proof -
  have "set (connectedOf e state cands)
          = node_id ` {n \<in> set (allNodes e). node_id n \<in> set cands
              \<and> node_id n \<in> sourceId ` spec_survivingEdges e state cands
                             \<union> targetId ` spec_survivingEdges e state cands
              \<and> typeMatch state n}"
    by (auto simp: connectedOf_def set_connectedNodeIds values_candidateNodeMap [OF assms]
        set_nodesWithEdges set_candLinksOf)
  also have "\<dots> = spec_retained e state cands"
    by (auto simp: spec_retained_def typeMatch_def image_iff) metis+
  finally show ?thesis .
qed

lemma length_connectedOf:
  "distinct (map node_id (allNodes e)) \<Longrightarrow>
     length (connectedOf e state cands) = card (spec_retained e state cands)"
  using distinct_card [of "connectedOf e state cands"] set_connectedOf [of e state cands]
  by (simp add: connectedOf_def distinct_connectedNodeIds)

text \<open>
  Claim C5. For every snapshot, query (with a non-negative \<open>maxTotalNodes\<close>, as the
  data model requires), search logic and ranking mode: if \<open>matchedCount\<close> exceeds
  \<open>maxTotalNodes\<close> then \<open>truncated\<close> is true and the returned node count equals
  \<open>maxTotalNodes\<close> (in both ranking modes: the zero-degree exclusion of the subgraph
  mode removes nothing, every connected node having a candidate link); if
  \<open>matchedCount \<le> maxTotalNodes\<close> then \<open>truncated\<close> is false and the returned node
  count equals \<open>matchedCount\<close>; and, node identifiers being unique in the snapshot,
  \<open>matchedCount\<close> is the number of nodes the Filter Stage of the specification
  retains from the candidates before any truncation (0 where the query is
  short-circuited to the empty result).
\<close>

theorem buildNetwork_truncation:
  fixes e state searchLogic nodeRankingMode
  defines "r \<equiv> fst (buildNetwork e state searchLogic nodeRankingMode)"
  assumes cap: "0 \<le> maxTotalNodes state"
  shows "(int (matchedCount r) > maxTotalNodes state \<longrightarrow>
            truncated r \<and> int (length (nodes r)) = maxTotalNodes state)
         \<and> (int (matchedCount r) \<le> maxTotalNodes state \<longrightarrow>
            \<not> truncated r \<and> length (nodes r) = matchedCount r)
         \<and> (distinct (map node_id (allNodes e)) \<longrightarrow>
            matchedCount r =
              (case candidateNodeIds e state searchLogic of
                 None \<Rightarrow> 0
               | Some cands \<Rightarrow> card (spec_retained e state cands)))"
proof (cases "candidateNodeIds e state searchLogic")
  case None
  with cap show ?thesis by (simp add: r_def buildNetwork_def emptyResult_def)
next
  case (Some cands)
  then have r: "r = fst (assemble e state nodeRankingMode cands)"
    by (simp add: r_def buildNetwork_def)
  from cap show ?thesis
    by (simp add: r matchedCount_assemble truncated_assemble length_nodes_assemble [OF cap]
        Some length_connectedOf)
qed

text \<open>
  Claim C5 at the snapshot A - B - C: with the cap 10 nothing is truncated, with the
  cap 1 (subgraph ranking) one node of three is returned.
\<close>

theorem buildNetwork_truncation_witness:
  "(0::int) \<le> maxTotalNodes queryB \<and> 0 \<le> maxTotalNodes (queryB\<lparr>maxTotalNodes := 1\<rparr>)
   \<and> distinct (map node_id (allNodes snapshotABC))
   \<and> matchedCount (fst (buildNetwork snapshotABC queryB LogicOR Global)) = 3
   \<and> \<not> truncated (fst (buildNetwork snapshotABC queryB LogicOR Global))
   \<and> length (nodes (fst (buildNetwork snapshotABC queryB LogicOR Global))) = 3
   \<and> matchedCount (fst (buildNetwork snapshotABC (queryB\<lparr>maxTotalNodes := 1\<rparr>) LogicOR Subgraph)) = 3
   \<and> truncated (fst (buildNetwork snapshotABC (queryB\<lparr>maxTotalNodes := 1\<rparr>) LogicOR Subgraph))
   \<and> length (nodes (fst (buildNetwork snapshotABC (queryB\<lparr>maxTotalNodes := 1\<rparr>) LogicOR Subgraph))) = 1"
proof -
  let ?q1 = "queryB\<lparr>maxTotalNodes := 1\<rparr>"
  have c: "(0::int) \<le> maxTotalNodes queryB" by (simp add: queryB_def)
  have c1: "(0::int) \<le> maxTotalNodes ?q1" by simp
  have m: "maxTotalNodes queryB = 10" by (simp add: queryB_def)
  have d: "distinct (map node_id (allNodes snapshotABC))" by code_simp
  have a: "matchedCount (fst (buildNetwork snapshotABC queryB LogicOR Global)) = 3" by code_simp
  have b: "matchedCount (fst (buildNetwork snapshotABC ?q1 LogicOR Subgraph)) = 3" by code_simp
  from buildNetwork_truncation [OF c, of snapshotABC LogicOR Global] a m
  have x: "\<not> truncated (fst (buildNetwork snapshotABC queryB LogicOR Global))
     \<and> length (nodes (fst (buildNetwork snapshotABC queryB LogicOR Global))) = 3" by simp
  from buildNetwork_truncation [OF c1, of snapshotABC LogicOR Subgraph] b
  have y: "truncated (fst (buildNetwork snapshotABC ?q1 LogicOR Subgraph))
     \<and> length (nodes (fst (buildNetwork snapshotABC ?q1 LogicOR Subgraph))) = 1" by simp
  from c c1 d a b x y show ?thesis by simp
qed

subsection \<open>What the stages read of a node\<close>

lemma bare_fields [simp]:
  "node_id (bare n) = node_id n" "node_type (bare n) = node_type n" "name (bare n) = name n"
  "properties (bare n) = properties n" "display_label (bare n) = display_label n"
  "full_name (bare n) = full_name n" "node_text (bare n) = node_text n"
  "section_text (bare n) = section_text n" "index_heading (bare n) = index_heading n"
  by (simp_all add: bare_def)

lemma typeMatch_bare [simp]: "typeMatch state (bare n) = typeMatch state n"
  by (simp add: typeMatch_def)

lemma pushField_bare:
  "f \<in> set recognizedFields \<Longrightarrow> pushField (bare n) vals f = pushField n vals f"
  by (auto simp: recognizedFields_def pushField_def fieldValue_def props_get_def)

lemma searchableValues_bare:
  assumes "set sf \<subseteq> set recognizedFields"
  shows "searchableValues (bare n) sf = searchableValues n sf"
  unfolding searchableValues_def
  by (rule foldl_cong) (use assms in \<open>auto simp: pushField_bare\<close>)

lemma nodeMatches_bare:
  "set sf \<subseteq> set recognizedFields \<Longrightarrow> nodeMatches logic ts sf (bare n) = nodeMatches logic ts sf n"
  by (simp add: nodeMatches_def searchableValues_bare)

lemma allNodes_bareBuilder [simp]: "allNodes (bareBuilder e) = map bare (allNodes e)"
  and allLinks_bareBuilder [simp]: "allLinks (bareBuilder e) = allLinks e"
  and adjacencyMap_bareBuilder [simp]: "adjacencyMap (bareBuilder e) = adjacencyMap e"
  by (simp_all add: bareBuilder_def)

lemma searchNodes_bare:
  "set sf \<subseteq> set recognizedFields \<Longrightarrow>
     searchNodes (bareBuilder e) ts sf logic = searchNodes e ts sf logic"
  by (simp add: searchNodes_def foldl_map nodeMatches_bare cong: if_cong)

lemma find_map_bare:
  "find (\<lambda>n. node_id n = i) (map bare ns) = map_option bare (find (\<lambda>n. node_id n = i) ns)"
  by (induction ns) simp_all

lemma findNode_bare: "findNode (bareBuilder e) i = map_option bare (findNode e i)"
  by (simp add: findNode_def find_map_bare)

lemma limitedNeighbors_adj:
  "adjacencyMap e1 = adjacencyMap e2 \<Longrightarrow> limitedNeighbors e1 maxN a = limitedNeighbors e2 maxN a"
  by (rule ext) (simp add: limitedNeighbors_def)

lemma expandLoop_adj:
  "adjacencyMap e1 = adjacencyMap e2 \<Longrightarrow>
     expandLoop e1 maxN a k expanded cur = expandLoop e2 maxN a k expanded cur"
  by (induction k arbitrary: expanded cur)
    (simp_all add: expandLayer_def Let_def limitedNeighbors_adj [of e1 e2])

lemma expandFromSeeds_bare:
  "expandFromSeeds (bareBuilder e) seeds d maxN a = expandFromSeeds e seeds d maxN a"
  by (simp add: expandFromSeeds_def expandLoop_adj [of "bareBuilder e" e])

lemma expandedCandidates_bare:
  "expandedCandidates (bareBuilder e) state seeds = expandedCandidates e state seeds"
proof -
  have "(case findNode (bareBuilder e) i of None \<Rightarrow> False
         | Some node \<Rightarrow> if i \<in> set seeds then True
                        else node_type node \<in> set (allowedNodeTypes state))
        = (case findNode e i of None \<Rightarrow> False
           | Some node \<Rightarrow> if i \<in> set seeds then True
                          else node_type node \<in> set (allowedNodeTypes state))" for i
    by (simp add: findNode_bare split: option.split)
  then show ?thesis by (simp add: expandedCandidates_def expandFromSeeds_bare Let_def)
qed

lemma seedsAfterFilter_bare:
  "seedsAfterFilter (bareBuilder e) state seeds = seedsAfterFilter e state seeds"
proof -
  have "(case findNode (bareBuilder e) i of None \<Rightarrow> False
         | Some node \<Rightarrow> length (allowedNodeTypes state) > 0
                          \<and> node_type node \<in> set (allowedNodeTypes state))
        = (case findNode e i of None \<Rightarrow> False
           | Some node \<Rightarrow> length (allowedNodeTypes state) > 0
                            \<and> node_type node \<in> set (allowedNodeTypes state))" for i
    by (simp add: findNode_bare split: option.split)
  then show ?thesis by (simp add: seedsAfterFilter_def)
qed

lemma candidateNodeIds_bare:
  "set (searchFields state) \<subseteq> set recognizedFields \<Longrightarrow>
     candidateNodeIds (bareBuilder e) state logic = candidateNodeIds e state logic"
  by (simp add: candidateNodeIds_def searchNodes_bare expandedCandidates_bare
      seedsAfterFilter_bare comp_def Let_def cong: if_cong)

lemma map_set_apsnd: "map (apsnd f) (map_set m k v) = map_set (map (apsnd f) m) k (f v)"
  by (induction m) auto

lemma candidate_fold_bare:
  "foldl (\<lambda>m n. if node_id n \<in> set cands then map_set m (node_id n) n else m)
     (map (apsnd bare) m0) (map bare ns)
   = map (apsnd bare)
       (foldl (\<lambda>m n. if node_id n \<in> set cands then map_set m (node_id n) n else m) m0 ns)"
  by (induction ns arbitrary: m0) (simp_all add: map_set_apsnd [symmetric])

lemma candidateNodeMap_bare:
  "candidateNodeMap (bareBuilder e) cands = map (apsnd bare) (candidateNodeMap e cands)"
  using candidate_fold_bare [of cands "[]" "allNodes e"] by (simp add: candidateNodeMap_def)

lemma map_has_apsnd: "map_has (map (apsnd f) m) k = map_has m k"
  by (simp add: map_has_iff image_image)

lemma candLinksOf_bare: "candLinksOf (bareBuilder e) state cands = candLinksOf e state cands"
  by (simp add: candLinksOf_def candidateLinks_def candidateNodeMap_bare map_has_apsnd)

lemma connectedNodeIds_bare:
  "connectedNodeIds state (map bare cn) cl = connectedNodeIds state cn cl"
  by (simp add: connectedNodeIds_def filter_map comp_def)

lemma map_snd_apsnd: "map snd (map (apsnd f) m) = map f (map snd m)"
  by simp

lemma connectedOf_bare: "connectedOf (bareBuilder e) state cands = connectedOf e state cands"
  unfolding connectedOf_def candLinksOf_bare candidateNodeMap_bare map_values_def map_snd_apsnd
  by (rule connectedNodeIds_bare)

lemma finalOf_bare: "finalOf (bareBuilder e) state mode cands = finalOf e state mode cands"
  by (simp add: finalOf_def finalNodeIds_def selectTopNodesByDegree_def connectedOf_bare
      candLinksOf_bare)

lemma enumerate_map_bare: "enumerate j (map f xs) = map (apsnd f) (enumerate j xs)"
  by (induction xs arbitrary: j) simp_all

lemma selectNode_bare: "selectNode state final m (apsnd bare kn) = selectNode state final m kn"
  by (simp add: selectNode_def)

lemma selOf_bare: "selOf (bareBuilder e) state mode cands = selOf e state mode cands"
  by (simp add: selOf_def selectedNodeMap_def finalOf_bare enumerate_map_bare foldl_map
      selectNode_bare)

lemma linksOf_bare: "linksOf (bareBuilder e) state mode cands = linksOf e state mode cands"
  by (simp add: linksOf_def selOf_bare candLinksOf_bare)

lemma bareBuilder_decorated:
  "bareBuilder (e\<lparr>allNodes := decorate sel ls (allNodes e)\<rparr>) = bareBuilder e"
  by (simp add: bareBuilder_def map_bare_decorate)

subsection \<open>The assignments of step 8 repeated\<close>

lemma assignVal_again:
  "assignVal nd (assignColor mv (assignVal nd n)) = assignColor mv (assignVal nd n)"
  by (simp add: assignVal_def assignColor_def Let_def)

lemma val_of_assign [simp]:
  "val_of (assignColor mv n) = val_of n" "val_of (assignVal nd n) = deg_or1 nd (node_id n)"
  by (simp_all add: val_of_def)

lemma assignColor_again: "assignColor mv (assignColor mv n) = assignColor mv n"
  by (simp add: assignColor_def Let_def val_of_def)

lemma decorate_idem:
  assumes r: "\<forall>k \<in> set sel. k < length ns"
  shows "decorate sel ls (decorate sel ls ns) = decorate sel ls ns"
proof -
  let ?nd = "countDegrees ls"
  let ?ns1 = "update_at sel (assignVal ?nd) ns"
  let ?mv = "maxValOf (map (\<lambda>k. ?ns1 ! k) sel)"
  let ?D = "update_at sel (assignColor ?mv) ?ns1"
  have D: "decorate sel ls ns = ?D" by (simp add: decorate_def Let_def)
  have nthD: "?D ! k = (if k \<in> set sel then assignColor ?mv (assignVal ?nd (ns ! k)) else ns ! k)"
    if "k < length ns" for k
    using that by (simp add: nth_update_at length_update_at)
  have one: "update_at sel (assignVal ?nd) ?D = ?D"
  proof (rule nth_equalityI)
    show "length (update_at sel (assignVal ?nd) ?D) = length ?D" by (simp add: length_update_at)
  next
    fix k assume "k < length (update_at sel (assignVal ?nd) ?D)"
    then have k: "k < length ns" by (simp add: length_update_at)
    then have "update_at sel (assignVal ?nd) ?D ! k
                 = (if k \<in> set sel then assignVal ?nd (?D ! k) else ?D ! k)"
      by (simp only: nth_update_at length_update_at)
    also have "\<dots> = ?D ! k" using nthD [OF k] by (simp add: assignVal_again)
    finally show "update_at sel (assignVal ?nd) ?D ! k = ?D ! k" .
  qed
  have "map (val_of \<circ> (\<lambda>k. ?D ! k)) sel = map (val_of \<circ> (\<lambda>k. ?ns1 ! k)) sel"
  proof (rule map_cong [OF refl])
    fix k assume "k \<in> set sel"
    with r have k: "k < length ns" by blast
    then show "(val_of \<circ> (\<lambda>k. ?D ! k)) k = (val_of \<circ> (\<lambda>k. ?ns1 ! k)) k"
      by (simp add: nth_update_at length_update_at)
  qed
  then have "map val_of (map (\<lambda>k. ?D ! k) sel) = map val_of (map (\<lambda>k. ?ns1 ! k) sel)"
    by (simp only: map_map)
  then have mv: "maxValOf (map (\<lambda>k. ?D ! k) sel) = ?mv"
    by (simp only: maxValOf_def)
  have two: "update_at sel (assignColor ?mv) ?D = ?D"
  proof (rule nth_equalityI)
    show "length (update_at sel (assignColor ?mv) ?D) = length ?D" by (simp add: length_update_at)
  next
    fix k assume "k < length (update_at sel (assignColor ?mv) ?D)"
    then have k: "k < length ns" by (simp add: length_update_at)
    then have "update_at sel (assignColor ?mv) ?D ! k
                 = (if k \<in> set sel then assignColor ?mv (?D ! k) else ?D ! k)"
      by (simp only: nth_update_at length_update_at)
    also have "\<dots> = ?D ! k" using nthD [OF k] by (simp add: assignColor_again)
    finally show "update_at sel (assignColor ?mv) ?D ! k = ?D ! k" .
  qed
  have "decorate sel ls ?D = ?D"
    unfolding decorate_def Let_def one mv two ..
  then show ?thesis by (simp only: D)
qed


subsection \<open>A second call on the state the first one leaves\<close>

lemma fst_assemble:
  "fst (assemble e state mode cands) =
     \<lparr>nodes = map (\<lambda>k. decorate (map snd (selOf e state mode cands))
                            (linksOf e state mode cands) (allNodes e) ! k)
                (map snd (selOf e state mode cands)),
      links = linksOf e state mode cands,
      truncated = (int (length (connectedOf e state cands)) > maxTotalNodes state),
      matchedCount = length (connectedOf e state cands)\<rparr>"
  by (simp add: assemble_def Let_def selOf_def linksOf_def finalOf_def connectedOf_def
      candLinksOf_def map_values_def)

lemma selOf_in_range: "\<forall>k \<in> set (map snd (selOf e state mode cands)). k < length (allNodes e)"
  using selOf_entry [of _ _ e state mode cands] by auto

lemma assemble_again:
  fixes e state mode cands
  defines "e' \<equiv> snd (assemble e state mode cands)"
  shows "assemble e' state mode cands = assemble e state mode cands"
proof -
  let ?sel = "map snd (selOf e state mode cands)"
  let ?ls = "linksOf e state mode cands"
  let ?D = "decorate ?sel ?ls (allNodes e)"
  have e': "e' = e\<lparr>allNodes := ?D\<rparr>" by (simp add: e'_def snd_assemble)
  have bb: "bareBuilder e' = bareBuilder e" unfolding e' by (rule bareBuilder_decorated)
  have sel: "selOf e' state mode cands = selOf e state mode cands"
    using selOf_bare [of e' state mode cands] selOf_bare [of e state mode cands] bb by simp
  have ls: "linksOf e' state mode cands = linksOf e state mode cands"
    using linksOf_bare [of e' state mode cands] linksOf_bare [of e state mode cands] bb by simp
  have con: "connectedOf e' state cands = connectedOf e state cands"
    using connectedOf_bare [of e' state cands] connectedOf_bare [of e state cands] bb by simp
  have ns: "allNodes e' = ?D" by (simp add: e')
  have D: "decorate ?sel ?ls ?D = ?D"
    by (rule decorate_idem) (rule selOf_in_range)
  have f: "fst (assemble e' state mode cands) = fst (assemble e state mode cands)"
    by (simp only: fst_assemble sel ls con ns D)
  have "snd (assemble e' state mode cands) = e'\<lparr>allNodes := ?D\<rparr>"
    by (simp only: snd_assemble sel ls ns D)
  also have "\<dots> = e'" by (simp add: e')
  finally have "snd (assemble e' state mode cands) = snd (assemble e state mode cands)"
    by (simp add: e'_def)
  with f show ?thesis by (rule prod_eqI)
qed

text \<open>
  Claim C7. For every snapshot and every query whose \<open>searchFields\<close> are drawn from the
  recognized field set, a second call of \<open>buildNetwork\<close> with the same query, search
  logic and ranking mode, run on the builder as the first call left it, returns the
  same \<open>FilteredGraph\<close> (nodes, links, \<open>truncated\<close>, \<open>matchedCount\<close>) and leaves the
  builder as the first call left it.
\<close>

theorem buildNetwork_idempotent:
  assumes "set (searchFields state) \<subseteq> set recognizedFields"
  shows "buildNetwork (snd (buildNetwork e state searchLogic nodeRankingMode))
           state searchLogic nodeRankingMode
         = buildNetwork e state searchLogic nodeRankingMode"
proof (cases "candidateNodeIds e state searchLogic")
  case None
  then show ?thesis by (simp add: buildNetwork_def)
next
  case (Some cands)
  let ?e' = "snd (assemble e state nodeRankingMode cands)"
  have "bareBuilder ?e' = bareBuilder e"
    by (simp only: snd_assemble bareBuilder_decorated)
  with candidateNodeIds_bare [OF assms, of ?e' searchLogic]
    candidateNodeIds_bare [OF assms, of e searchLogic] Some
  have "candidateNodeIds ?e' state searchLogic = Some cands" by simp
  with Some assemble_again [of e state nodeRankingMode cands]
  show ?thesis by (simp add: buildNetwork_def)
qed

text \<open>Claim C7 at the snapshot A - B - C with the search field \<open>entity\<close>.\<close>

theorem buildNetwork_idempotent_witness:
  "set (searchFields queryB) \<subseteq> set recognizedFields
   \<and> map node_id (nodes (fst (buildNetwork snapshotABC queryB LogicOR Global)))
       = [''A'', ''B'', ''C'']
   \<and> fst (buildNetwork (snd (buildNetwork snapshotABC queryB LogicOR Global))
            queryB LogicOR Global)
       = fst (buildNetwork snapshotABC queryB LogicOR Global)
   \<and> snd (buildNetwork (snd (buildNetwork snapshotABC queryB LogicOR Global))
            queryB LogicOR Global)
       = snd (buildNetwork snapshotABC queryB LogicOR Global)"
proof -
  have h: "set (searchFields queryB) \<subseteq> set recognizedFields"
    by (simp add: queryB_def recognizedFields_def)
  have a: "map node_id (nodes (fst (buildNetwork snapshotABC queryB LogicOR Global)))
       = [''A'', ''B'', ''C'']"
    by code_simp
  from buildNetwork_idempotent [OF h, of snapshotABC LogicOR Global] h a
  show ?thesis by simp
qed

subsection \<open>Returned nodes and the links of step 4\<close>












end
